theory Spec2Isabelle
  imports Complex_Main "HOL-Library.Product_Lexorder"
begin

section \<open>Python values, exceptions and numpy arrays\<close>

text \<open>
  The module \<^verbatim>\<open>pensa/statesinfo/ssi_clustering.py\<close> is embedded function by
  function. Python floats are modelled as \<^typ>\<open>real\<close>, Python ints as \<^typ>\<open>int\<close>
  (or \<^typ>\<open>nat\<close> where the value is a count or an index that the source never makes
  negative). A call either returns a value (\<open>Inr\<close>) or does not (\<open>Inl\<close>): the
  exceptions the source can raise are constructors of \<open>error\<close>. \<open>Deadlock\<close> stands
  for a call that never returns because \<^verbatim>\<open>queue.PriorityQueue.get\<close> blocks on an
  empty queue. \<open>DivisionByZero\<close> stands for a float division whose divisor is \<open>0.0\<close>:
  on Python floats it raises ZeroDivisionError, on numpy arrays it gives a warning and
  entries that are infinite or not a number; in both cases no real numbers come back.
\<close>

datatype error =
  ValueError | IndexError | TypeError | UnboundLocalError | DivisionByZero | Deadlock

text \<open>
  A numpy array is its shape and its elements in row-major order;
  \<^verbatim>\<open>x.ndim\<close> is the number of axes and \<^verbatim>\<open>x.size\<close> the product of the shape.
\<close>

datatype ndarray = NDArray (shape: "nat list") (flat: "real list")

definition ndim :: "ndarray \<Rightarrow> nat" where
  "ndim x = length (shape x)"

definition nd_size :: "ndarray \<Rightarrow> nat" where
  "nd_size x = prod_list (shape x)"

definition array1 :: "real list \<Rightarrow> ndarray" where
  "array1 xs = NDArray [length xs] xs"

text \<open>
  \<^verbatim>\<open>xs[start:stop:-1]\<close>: Python moves a negative bound up by the length, clamps both
  bounds to \<open>-1 .. len - 1\<close> and walks down from \<open>start\<close> to just above \<open>stop\<close>.
\<close>

definition slice_down :: "'a list \<Rightarrow> int \<Rightarrow> int \<Rightarrow> 'a list" where
  "slice_down xs start stop =
     (let n = int (length xs);
          hi = (if start < 0 then max (start + n) (- 1) else min start (n - 1));
          lo = (if stop < 0 then max (stop + n) (- 1) else min stop (n - 1))
      in map (\<lambda>i. xs ! nat i) (rev [lo + 1 .. hi]))"

text \<open>
  \<^verbatim>\<open>np.hanning(M)\<close> as numpy computes it:
  \<^verbatim>\<open>0.5 + 0.5*cos(pi*n/(M-1))\<close> for \<^verbatim>\<open>n = arange(1-M, M, 2)\<close>.
\<close>

definition np_hanning :: "int \<Rightarrow> real list" where
  "np_hanning M =
     (if M < 1 then []
      else if M = 1 then [1]
      else map (\<lambda>j. 0.5 + 0.5 * cos (pi * real_of_int (1 - M + 2 * int j) / real_of_int (M - 1)))
             [0..<nat M])"

text \<open>
  \<^verbatim>\<open>np.convolve(a, v, mode='valid')\<close>: the longer argument is taken first, an empty
  argument is a ValueError, and the result has one entry for each position at which the
  shorter sequence lies wholly inside the longer one.
\<close>

definition np_convolve_valid :: "real list \<Rightarrow> real list \<Rightarrow> error + real list" where
  "np_convolve_valid a0 v0 =
     (let a = (if length v0 > length a0 then v0 else a0);
          v = (if length v0 > length a0 then a0 else v0)
      in if a = [] then Inl ValueError
         else if v = [] then Inl ValueError
         else Inr (map (\<lambda>k. \<Sum>j\<leftarrow>[0..<length v]. a ! (k + j) * v ! (length v - 1 - j))
                     [0..<length a - length v + 1]))"

section \<open>smooth\<close>

text \<open>
  \<^verbatim>\<open>window_type\<close> is bound only when \<^verbatim>\<open>window is None\<close>; with any other
  \<^verbatim>\<open>window\<close> its first read (the membership test) raises UnboundLocalError. The
  only window reachable is therefore the Hanning window; the \<^verbatim>\<open>'flat'\<close> branch is
  kept as the source has it.
\<close>

definition smooth :: "ndarray \<Rightarrow> int \<Rightarrow> string option \<Rightarrow> error + ndarray" where
  "smooth x window_len window =
     (if ndim x \<noteq> 1 then Inl ValueError
      else if int (nd_size x) < window_len then Inl ValueError
      else if window_len < 3 then Inr x
      else (case window of
              Some other \<Rightarrow> Inl UnboundLocalError
            | None \<Rightarrow>
               (let window_type = ''hanning'' in
                if window_type \<notin> set [''flat'', ''hanning'', ''hamming'', ''bartlett'', ''blackman'']
                then Inl ValueError
                else
                 (let s = slice_down (flat x) (window_len - 1) 0 @ flat x
                            @ slice_down (flat x) (- 2) (- window_len - 1);
                      w = (if window_type = ''flat'' then replicate (nat window_len) 1
                           else np_hanning window_len);
                      wsum = sum_list w
                  in case np_convolve_valid (map (\<lambda>wi. wi / wsum) w) s of
                       Inl e \<Rightarrow> Inl e
                     | Inr y \<Rightarrow> Inr (array1 y)))))"

section \<open>The Gaussian basis\<close>

text \<open>
  In double precision, rounding to nearest, a real number of magnitude at most
  \<open>2^-1075\<close> (half the least positive double) is stored as \<open>0.0\<close>, and every other
  real number as a double that is not zero. This is the one place where the embedding
  follows the doubles and not the reals: it decides whether a divisor is zero.
\<close>

definition underflows :: "real \<Rightarrow> bool" where
  "underflows v \<longleftrightarrow> \<bar>v\<bar> * 2 ^ 1075 \<le> 1"

text \<open>
  \<^verbatim>\<open>_gauss(x, x0, sigma, a)\<close> over an array \<open>x\<close>. The assignment to
  \<^verbatim>\<open>gaussian\<close> is guarded by \<^verbatim>\<open>sigma != 0\<close>; with \<open>sigma = 0\<close> the
  \<^verbatim>\<open>return gaussian\<close> reads an unbound local. The guard tests \<open>sigma\<close> and
  not the divisor: for a \<open>sigma\<close> that is not zero and whose square underflows,
  \<^verbatim>\<open>2*sigma**2\<close> is \<open>0.0\<close> and the division is by zero.
\<close>

definition gauss :: "real list \<Rightarrow> real \<Rightarrow> real \<Rightarrow> real \<Rightarrow> error + real list" where
  "gauss x x0 sigma a =
     (if sigma \<noteq> 0
      then (if underflows (sigma\<^sup>2) then Inl DivisionByZero
            else Inr (map (\<lambda>xi. \<bar>a * exp (- ((xi - x0)\<^sup>2) / (2 * sigma\<^sup>2))\<bar>) x))
      else Inl UnboundLocalError)"

section \<open>Lists the Python way\<close>

text \<open>
  Indexing a list or an array with an index that is not there raises IndexError;
  \<^verbatim>\<open>xs[i]\<close> with a negative \<open>i\<close> counts from the end.
\<close>

definition nth_chk :: "'a list \<Rightarrow> nat \<Rightarrow> error + 'a" where
  "nth_chk xs i = (if i < length xs then Inr (xs ! i) else Inl IndexError)"

definition py_getitem :: "'a list \<Rightarrow> int \<Rightarrow> error + 'a" where
  "py_getitem xs i =
     (let n = int (length xs); j = (if i < 0 then i + n else i)
      in if 0 \<le> j \<and> j < n then Inr (xs ! nat j) else Inl IndexError)"

text \<open>\<^verbatim>\<open>max(xs)\<close> and \<^verbatim>\<open>min(xs)\<close>: ValueError on an empty sequence.\<close>

definition py_max :: "real list \<Rightarrow> error + real" where
  "py_max xs = (case xs of [] \<Rightarrow> Inl ValueError | y # ys \<Rightarrow> Inr (fold max ys y))"

definition py_min :: "real list \<Rightarrow> error + real" where
  "py_min xs = (case xs of [] \<Rightarrow> Inl ValueError | y # ys \<Rightarrow> Inr (fold min ys y))"

text \<open>The first position at which a value occurs, if it occurs.\<close>

fun first_index :: "'a list \<Rightarrow> 'a \<Rightarrow> nat option" where
  "first_index [] v = None"
| "first_index (y # ys) v =
     (if y = v then Some 0 else map_option Suc (first_index ys v))"

text \<open>\<^verbatim>\<open>xs.index(v)\<close> raises ValueError when \<open>v\<close> does not occur.\<close>

definition py_index :: "'a list \<Rightarrow> 'a \<Rightarrow> error + nat" where
  "py_index xs v = (case first_index xs v of None \<Rightarrow> Inl ValueError | Some i \<Rightarrow> Inr i)"

text \<open>
  \<^verbatim>\<open>np.where(arr == v)[0][0]\<close>: the first matching position; the second
  \<^verbatim>\<open>[0]\<close> raises IndexError when nothing matches.
\<close>

definition np_where_first :: "real list \<Rightarrow> real \<Rightarrow> error + nat" where
  "np_where_first arr v = (case first_index arr v of None \<Rightarrow> Inl IndexError | Some i \<Rightarrow> Inr i)"

text \<open>A comprehension whose element expression may raise: the first exception wins.\<close>

fun map_err :: "('a \<Rightarrow> error + 'b) \<Rightarrow> 'a list \<Rightarrow> error + 'b list" where
  "map_err f [] = Inr []"
| "map_err f (x # xs) =
     (case f x of
        Inl e \<Rightarrow> Inl e
      | Inr y \<Rightarrow> (case map_err f xs of Inl e \<Rightarrow> Inl e | Inr ys \<Rightarrow> Inr (y # ys)))"

section \<open>find_nearest\<close>

text \<open>\<^verbatim>\<open>argmin\<close> is the first position of the least value; it raises ValueError on an empty array.\<close>

definition np_argmin :: "real list \<Rightarrow> error + nat" where
  "np_argmin xs = (case py_min xs of Inl e \<Rightarrow> Inl e | Inr m \<Rightarrow> py_index xs m)"

definition find_nearest :: "real list \<Rightarrow> real \<Rightarrow> error + real" where
  "find_nearest distr val =
     (case np_argmin (map (\<lambda>a. \<bar>a - val\<bar>) distr) of
        Inl e \<Rightarrow> Inl e
      | Inr idx \<Rightarrow> nth_chk distr idx)"

section \<open>printKclosest\<close>

text \<open>
  \<^verbatim>\<open>queue.PriorityQueue\<close> holds tuples \<open>(-difference, index)\<close>, compared
  lexicographically; \<^verbatim>\<open>get\<close> removes and returns the least tuple and, called on
  an empty queue, blocks for ever. The queue is kept as an ascending list, so the least
  tuple is its head.
\<close>

type_synonym pqueue = "(real \<times> nat) list"

definition pq_put :: "real \<times> nat \<Rightarrow> pqueue \<Rightarrow> pqueue" where
  "pq_put e pq = insort e pq"

definition pq_get :: "pqueue \<Rightarrow> error + ((real \<times> nat) \<times> pqueue)" where
  "pq_get pq = (case pq of [] \<Rightarrow> Inl Deadlock | e # rest \<Rightarrow> Inr (e, rest))"

text \<open>First loop: \<^verbatim>\<open>for neighb in range(k): pq.put((-abs(arr[neighb]-x), neighb))\<close>.\<close>

fun heap_first :: "real list \<Rightarrow> real \<Rightarrow> nat list \<Rightarrow> pqueue \<Rightarrow> error + pqueue" where
  "heap_first arr x [] pq = Inr pq"
| "heap_first arr x (neighb # todo) pq =
     (case nth_chk arr neighb of
        Inl e \<Rightarrow> Inl e
      | Inr v \<Rightarrow> heap_first arr x todo (pq_put (- \<bar>v - x\<bar>, neighb) pq))"

text \<open>
  Second loop, over \<^verbatim>\<open>range(k, n)\<close>: the difference is computed first, then the
  root is taken out and either put back or replaced.
\<close>

fun heap_rest :: "real list \<Rightarrow> real \<Rightarrow> nat list \<Rightarrow> pqueue \<Rightarrow> error + pqueue" where
  "heap_rest arr x [] pq = Inr pq"
| "heap_rest arr x (neighb # todo) pq =
     (case nth_chk arr neighb of
        Inl e \<Rightarrow> Inl e
      | Inr v \<Rightarrow>
         (let diff = \<bar>v - x\<bar> in
          case pq_get pq of
            Inl e \<Rightarrow> Inl e
          | Inr ((p, p_i), rest) \<Rightarrow>
             (let curr = - p in
              if diff > curr then heap_rest arr x todo (pq_put (- curr, p_i) rest)
              else heap_rest arr x todo (pq_put (- diff, neighb) rest))))"

text \<open>
  Third loop: \<^verbatim>\<open>while not pq.empty(): p,q = pq.get(); a.append(... arr[q] ...)\<close>;
  each step takes the head of the ascending list.
\<close>

fun heap_drain :: "real list \<Rightarrow> pqueue \<Rightarrow> error + real list" where
  "heap_drain arr [] = Inr []"
| "heap_drain arr ((p, q) # rest) =
     (case nth_chk arr q of
        Inl e \<Rightarrow> Inl e
      | Inr v \<Rightarrow> (case heap_drain arr rest of Inl e \<Rightarrow> Inl e | Inr a \<Rightarrow> Inr (v # a)))"

text \<open>
  The source returns each selected value rendered by \<^verbatim>\<open>"{} ".format\<close>, and its one
  caller reads it back with \<^verbatim>\<open>float\<close>; the model returns the values themselves.
  \<open>n\<close> and \<open>k\<close> are counts.
\<close>

definition printKclosest :: "real list \<Rightarrow> nat \<Rightarrow> real \<Rightarrow> nat \<Rightarrow> error + real list" where
  "printKclosest arr n x k =
     (case heap_first arr x [0..<k] [] of
        Inl e \<Rightarrow> Inl e
      | Inr pq \<Rightarrow>
         (case heap_rest arr x [k..<n] pq of
            Inl e \<Rightarrow> Inl e
          | Inr pq' \<Rightarrow> heap_drain arr pq'))"

text \<open>
  The invariant of the queue after the first \<open>m\<close> positions have been seen: it is
  ascending, holds each position at most once with the negated difference as its
  priority, and no position seen and left out is closer to the target than a position
  kept.
\<close>

definition heap_inv :: "real list \<Rightarrow> real \<Rightarrow> nat \<Rightarrow> pqueue \<Rightarrow> bool" where
  "heap_inv arr x m pq \<longleftrightarrow>
     sorted pq \<and> distinct (map snd pq) \<and>
     (\<forall>e \<in> set pq. snd e < m \<and> fst e = - \<bar>arr ! snd e - x\<bar>) \<and>
     (\<forall>j < m. j \<notin> snd ` set pq \<longrightarrow> (\<forall>e \<in> set pq. \<bar>arr ! snd e - x\<bar> \<le> \<bar>arr ! j - x\<bar>))"

section \<open>gauss_fit: peaks and initial parameters\<close>

text \<open>
  \<^verbatim>\<open>argrelextrema(data, np.greater)\<close> with scipy's defaults (order 1, mode
  \<^verbatim>\<open>'clip'\<close>): position \<open>i\<close> is kept when \<open>data[i]\<close> is greater than both
  neighbours, a neighbour position being clipped into the array.
\<close>

definition argrelextrema_greater :: "real list \<Rightarrow> nat list" where
  "argrelextrema_greater data =
     filter (\<lambda>i. data ! i > data ! min (i + 1) (length data - 1) \<and> data ! i > data ! (i - 1))
       [0..<length data]"

text \<open>
  The significance filter: \<^verbatim>\<open>maxima\<close>, then
  \<^verbatim>\<open>[item for item in maxima if item > max(distributiony)*0.0075]\<close>. The maximum is
  evaluated once per item, so not at all when there is no item.
\<close>

definition maxima :: "real list \<Rightarrow> real list" where
  "maxima distributiony = map (\<lambda>item. distributiony ! item) (argrelextrema_greater distributiony)"

definition corrected_extrema :: "real list \<Rightarrow> error + real list" where
  "corrected_extrema distributiony =
     (case maxima distributiony of
        [] \<Rightarrow> Inr []
      | m # ms \<Rightarrow>
         (case py_max distributiony of
            Inl e \<Rightarrow> Inl e
          | Inr ymax \<Rightarrow> Inr (filter (\<lambda>item. item > ymax * 0.0075) (m # ms))))"

definition noc :: nat where
  "noc = 28"

text \<open>The x-position of a peak: \<^verbatim>\<open>distributionx[np.where(distributiony==extrema)[0][0]]\<close>.\<close>

definition mean_xval :: "real list \<Rightarrow> real list \<Rightarrow> real \<Rightarrow> error + real" where
  "mean_xval distributionx distributiony extrema =
     (case np_where_first distributiony extrema of
        Inl e \<Rightarrow> Inl e
      | Inr i \<Rightarrow> nth_chk distributionx i)"

text \<open>
  The half-maximum crossing of a peak: the \<open>noc\<close> density values closest to half the
  peak's height, their first positions, and of the x-values there the one nearest to the
  peak's own.
\<close>

definition xsig :: "real list \<Rightarrow> real list \<Rightarrow> real \<Rightarrow> real \<Rightarrow> error + real" where
  "xsig distributionx distributiony extrema mean_x =
     (case printKclosest distributiony (length distributiony) (extrema * 0.5) noc of
        Inl e \<Rightarrow> Inl e
      | Inr closest \<Rightarrow>
         (case map_err (\<lambda>closesty. np_where_first distributiony closesty) closest of
            Inl e \<Rightarrow> Inl e
          | Inr xlist \<Rightarrow>
             (case map_err (nth_chk distributionx) xlist of
                Inl e \<Rightarrow> Inl e
              | Inr xs \<Rightarrow> find_nearest xs mean_x)))"

text \<open>The body of the loop over \<^verbatim>\<open>corrected_extrema\<close>: one sigma per peak.\<close>

definition peak_sigma :: "real list \<Rightarrow> real list \<Rightarrow> real \<Rightarrow> error + real" where
  "peak_sigma distributionx distributiony extrema =
     (case mean_xval distributionx distributiony extrema of
        Inl e \<Rightarrow> Inl e
      | Inr mean_x \<Rightarrow>
         (case xsig distributionx distributiony extrema mean_x of
            Inl e \<Rightarrow> Inl e
          | Inr x_sig \<Rightarrow>
             (let FWHM = \<bar>x_sig - mean_x\<bar>;
                  sigma = FWHM / (2 * sqrt (2 * ln 2))
              in Inr sigma)))"

datatype mode =
  Gauss | Bimodal | Trimodal | Quadmodal | Quinmodal | Sexmodal | Septmodal | Octomodal
  | Nonamodal | Decamodal

definition peak_number :: "mode list" where
  "peak_number =
     [Gauss, Bimodal, Trimodal, Quadmodal, Quinmodal, Sexmodal, Septmodal, Octomodal,
      Nonamodal, Decamodal]"

text \<open>
  Lines 243 to 283 of \<^verbatim>\<open>gauss_fit\<close>, from the smoothed histogram to the chosen
  model and the initial-guess vector handed to \<^verbatim>\<open>curve_fit\<close>. \<^verbatim>\<open>mean_pop\<close>
  and \<^verbatim>\<open>sigma_pop\<close> are element-by-element copies of \<^verbatim>\<open>mean_vals\<close> and
  \<^verbatim>\<open>sig_vals\<close>.
\<close>

definition gauss_fit_guess :: "real list \<Rightarrow> real list \<Rightarrow> error + (mode \<times> real list)" where
  "gauss_fit_guess distributionx distributiony =
     (case corrected_extrema distributiony of
        Inl e \<Rightarrow> Inl e
      | Inr extrema \<Rightarrow>
         (case map_err (peak_sigma distributionx distributiony) extrema of
            Inl e \<Rightarrow> Inl e
          | Inr sig_vals \<Rightarrow>
             (case map_err (mean_xval distributionx distributiony) extrema of
                Inl e \<Rightarrow> Inl e
              | Inr mean_vals \<Rightarrow>
                 (case py_getitem peak_number (int (length sig_vals) - 1) of
                    Inl e \<Rightarrow> Inl e
                  | Inr mode \<Rightarrow>
                     Inr (mode,
                          concat (map (\<lambda>param_num.
                                    [mean_vals ! param_num, sig_vals ! param_num, extrema ! param_num])
                                  [0..<length mean_vals]))))))"

text \<open>
  \<^verbatim>\<open>xline = np.linspace(min(distribution), max(distribution), 10000)\<close>: the grid
  on which \<^verbatim>\<open>gauss_fit\<close> evaluates the fitted curves.
\<close>

definition np_linspace :: "real \<Rightarrow> real \<Rightarrow> nat \<Rightarrow> real list" where
  "np_linspace start stop num =
     map (\<lambda>i. start + real i * ((stop - start) / real (num - 1))) [0..<num]"

section \<open>smart_gauss_fit\<close>

text \<open>
  The table of bin adjustments: \<^verbatim>\<open>np.insert(up, np.arange(len(down)), down)\<close> puts
  \<open>down[i]\<close> in front of \<open>up[i]\<close>, for two arrays of one length.
\<close>

definition bin_adjust_up :: "int list" where
  "bin_adjust_up = [1..9999]"

definition bin_adjust_down :: "int list" where
  "bin_adjust_down = map (\<lambda>v. v * - 1) bin_adjust_up"

definition np_insert_arange :: "'a list \<Rightarrow> 'a list \<Rightarrow> 'a list" where
  "np_insert_arange arr vals = concat (map (\<lambda>(v, a). [v, a]) (zip vals arr))"

definition bin_adjust :: "int list" where
  "bin_adjust = np_insert_arange bin_adjust_up bin_adjust_down"

text \<open>\<^verbatim>\<open>int(gauss_bins*0.1)\<close>: a tenth, truncated towards zero.\<close>

definition int_tenth :: "int \<Rightarrow> int" where
  "int_tenth b = (if 0 \<le> b then b div 10 else - ((- b) div 10))"

text \<open>
  \<^verbatim>\<open>gauss_fit\<close> rests on numpy's histogram and scipy's \<^verbatim>\<open>curve_fit\<close>, so the
  loop takes it as a parameter: \<open>gauss_fit bins smooth\<close> is \<open>Some\<close> of what the call
  returns, or \<open>None\<close> when it raises (the bare \<^verbatim>\<open>except\<close> catches everything).
  The loop ends at the first success; when the table is exhausted,
  \<^verbatim>\<open>bin_adjust[attempt_no]\<close> raises IndexError inside the handler, which leaves the
  function. Besides the fit, the model returns \<^verbatim>\<open>attempt_no\<close> and the list of
  \<open>(gauss_bins, gauss_smooth)\<close> pairs \<^verbatim>\<open>gauss_fit\<close> was called with, in order.
\<close>

function retry_loop ::
  "(int \<Rightarrow> int \<Rightarrow> 'r option) \<Rightarrow> int \<Rightarrow> int \<Rightarrow> int \<Rightarrow> nat \<Rightarrow> (int \<times> int) list
     \<Rightarrow> error + ('r \<times> nat \<times> (int \<times> int) list)" where
  "retry_loop gauss_fit bin_origin gauss_smooth gauss_bins attempt_no calls =
     (case gauss_fit gauss_bins gauss_smooth of
        Some fit \<Rightarrow> Inr (fit, attempt_no, calls @ [(gauss_bins, gauss_smooth)])
      | None \<Rightarrow>
         (if attempt_no + 1 < length bin_adjust
          then retry_loop gauss_fit bin_origin gauss_smooth
                 (bin_origin + bin_adjust ! (attempt_no + 1)) (attempt_no + 1)
                 (calls @ [(gauss_bins, gauss_smooth)])
          else Inl IndexError))"
  by pat_completeness auto
termination
  by (relation "measure (\<lambda>(gauss_fit, bin_origin, gauss_smooth, gauss_bins, attempt_no, calls).
                  length bin_adjust - attempt_no)") auto

declare retry_loop.simps [simp del]

text \<open>The warning printed after the loop is output only and is left out.\<close>

definition smart_gauss_fit ::
  "(int \<Rightarrow> int \<Rightarrow> 'r option) \<Rightarrow> int \<Rightarrow> int option
     \<Rightarrow> error + ('r \<times> nat \<times> (int \<times> int) list)" where
  "smart_gauss_fit gauss_fit gauss_bins gauss_smooth =
     (let bin_origin = gauss_bins;
          gauss_smooth' = (case gauss_smooth of None \<Rightarrow> int_tenth gauss_bins | Some s \<Rightarrow> s)
      in retry_loop gauss_fit bin_origin gauss_smooth' gauss_bins 0 [])"

section \<open>get_intersects\<close>

text \<open>Elementwise difference of two arrays; numpy stretches an array of length one.\<close>

definition np_sub :: "real list \<Rightarrow> real list \<Rightarrow> error + real list" where
  "np_sub a b =
     (if length a = length b then Inr (map (\<lambda>(u, v). u - v) (zip a b))
      else if length a = 1 then Inr (map (\<lambda>v. a ! 0 - v) b)
      else if length b = 1 then Inr (map (\<lambda>u. u - b ! 0) a)
      else Inl ValueError)"

definition np_diff :: "real list \<Rightarrow> real list" where
  "np_diff xs = map (\<lambda>i. xs ! (i + 1) - xs ! i) [0..<length xs - 1]"

definition np_argwhere :: "real list \<Rightarrow> nat list" where
  "np_argwhere xs = filter (\<lambda>i. xs ! i \<noteq> 0) [0..<length xs]"

text \<open>\<^verbatim>\<open>np.argwhere(np.diff(np.sign(ga - gb))).flatten()\<close>: where the sign of the difference changes.\<close>

definition crossings :: "real list \<Rightarrow> real list \<Rightarrow> error + nat list" where
  "crossings ga gb =
     (case np_sub ga gb of
        Inl e \<Rightarrow> Inl e
      | Inr d \<Rightarrow> Inr (np_argwhere (np_diff (map sgn d))))"

text \<open>\<^verbatim>\<open>list(g).index(max(g))\<close>: the first grid position of a curve's maximum.\<close>

definition peak_index :: "real list \<Rightarrow> error + nat" where
  "peak_index g = (case py_max g of Inl e \<Rightarrow> Inl e | Inr ymax \<Rightarrow> py_index g ymax)"

text \<open>
  The body of the loop over neighbouring curves. \<^verbatim>\<open>float\<close> of an array converts
  an array of exactly one element and raises TypeError otherwise.
\<close>

definition pair_intersect :: "real list \<Rightarrow> real list \<Rightarrow> real list \<Rightarrow> error + real" where
  "pair_intersect xline ga gb =
     (case crossings ga gb of
        Inl e \<Rightarrow> Inl e
      | Inr idx \<Rightarrow>
         if length idx = 1 then nth_chk xline (idx ! 0)
         else if length idx \<noteq> 0 then
           (case map_err (nth_chk ga) idx of
              Inl e \<Rightarrow> Inl e
            | Inr ys \<Rightarrow>
               (case py_max ys of
                  Inl e \<Rightarrow> Inl e
                | Inr intersect_ymax \<Rightarrow>
                   (let intersect_ymax_index = filter (\<lambda>item. ga ! item = intersect_ymax) idx in
                    case map_err (nth_chk xline) intersect_ymax_index of
                      Inl e \<Rightarrow> Inl e
                    | Inr [v] \<Rightarrow> Inr v
                    | Inr other \<Rightarrow> Inl TypeError)))
         else
           (case peak_index ga of
              Inl e \<Rightarrow> Inl e
            | Inr gauss_max1 \<Rightarrow>
               (case peak_index gb of
                  Inl e \<Rightarrow> Inl e
                | Inr gauss_max2 \<Rightarrow>
                   (case nth_chk xline gauss_max2 of
                      Inl e \<Rightarrow> Inl e
                    | Inr x2 \<Rightarrow>
                       (case nth_chk xline gauss_max1 of
                          Inl e \<Rightarrow> Inl e
                        | Inr x1 \<Rightarrow> Inr (0.5 * \<bar>x2 + x1\<bar>))))))"

text \<open>
  The curves in the order of their peak positions, those whose maximum is not above
  \<open>0.0001\<close> dropped. Every curve has had its maximum taken before, so the \<open>Inl\<close> case
  of the test cannot arise.
\<close>

definition reorder_gaussians :: "real list list \<Rightarrow> nat list \<Rightarrow> real list list" where
  "reorder_gaussians gaussians reorder_indices =
     map (\<lambda>gauss_num. gaussians ! gauss_num)
       (filter (\<lambda>gauss_num.
                  case py_max (gaussians ! gauss_num) of Inl e \<Rightarrow> False | Inr ymax \<Rightarrow> ymax > 0.0001)
          reorder_indices)"

text \<open>The plot written when \<^verbatim>\<open>write_plots\<close> is given is output only and is left out.\<close>

definition get_intersects :: "real list list \<Rightarrow> real list \<Rightarrow> real list \<Rightarrow> error + real list" where
  "get_intersects gaussians distribution xline =
     (case py_min distribution of
        Inl e \<Rightarrow> Inl e
      | Inr lo \<Rightarrow>
         (case map_err (\<lambda>g. case peak_index g of Inl e \<Rightarrow> Inl e | Inr i \<Rightarrow> nth_chk xline i)
                 gaussians of
            Inl e \<Rightarrow> Inl e
          | Inr mean_gauss_xval \<Rightarrow>
             (case map_err (py_index mean_gauss_xval) (sort mean_gauss_xval) of
                Inl e \<Rightarrow> Inl e
              | Inr reorder_indices \<Rightarrow>
                 (let reordered = reorder_gaussians gaussians reorder_indices in
                  case map_err (\<lambda>gauss_index.
                           pair_intersect xline (reordered ! gauss_index)
                             (reordered ! (gauss_index + 1)))
                         [0..<length reordered - 1] of
                    Inl e \<Rightarrow> Inl e
                  | Inr mids \<Rightarrow>
                     (case py_max distribution of
                        Inl e \<Rightarrow> Inl e
                      | Inr hi \<Rightarrow> Inr ([lo] @ mids @ [hi]))))))"

section \<open>determine_state_limits\<close>

text \<open>
  \<open>gauss_fit distribution bins smooth\<close> stands for the call
  \<^verbatim>\<open>gauss_fit(distribution, bins, smooth)\<close>: \<open>Some (gaussians, xline)\<close> when it
  returns, \<open>None\<close> when it raises.
\<close>

definition determine_state_limits ::
  "(real list \<Rightarrow> int \<Rightarrow> int \<Rightarrow> (real list list \<times> real list) option)
     \<Rightarrow> real list \<Rightarrow> int \<Rightarrow> int option \<Rightarrow> error + real list" where
  "determine_state_limits gauss_fit distr gauss_bins gauss_smooth =
     (let distribution = filter (\<lambda>item. item \<noteq> 10000) distr in
      case smart_gauss_fit (gauss_fit distribution) gauss_bins gauss_smooth of
        Inl e \<Rightarrow> Inl e
      | Inr ((gaussians, xline), attempt_no, calls) \<Rightarrow>
         (case get_intersects gaussians distribution xline of
            Inl e \<Rightarrow> Inl e
          | Inr intersection_of_states \<Rightarrow>
             Inr (sort (if count_list distr 10000 \<ge> 1
                        then intersection_of_states @ [20000]
                        else intersection_of_states))))"

section \<open>Basic facts about the list operations\<close>

lemma py_min_Inr: "py_min xs = Inr m \<longleftrightarrow> xs \<noteq> [] \<and> m = Min (set xs)"
  by (cases xs) (auto simp add: py_min_def Min.set_eq_fold [symmetric])

lemma py_max_Inr: "py_max xs = Inr m \<longleftrightarrow> xs \<noteq> [] \<and> m = Max (set xs)"
  by (cases xs) (auto simp add: py_max_def Max.set_eq_fold [symmetric])

lemma nth_chk_Inr: "nth_chk xs i = Inr v \<longleftrightarrow> i < length xs \<and> v = xs ! i"
  by (auto simp add: nth_chk_def)

lemma map_err_Inr_set:
  "map_err f xs = Inr ys \<Longrightarrow> y \<in> set ys \<Longrightarrow> \<exists>x \<in> set xs. f x = Inr y"
  by (induction xs arbitrary: ys) (auto split: sum.splits)

lemma map_err_Inr_length: "map_err f xs = Inr ys \<Longrightarrow> length ys = length xs"
  by (induction xs arbitrary: ys) (auto split: sum.splits)

lemma first_index_Some: "v \<in> set xs \<Longrightarrow> \<exists>i < length xs. first_index xs v = Some i"
  by (induction xs) auto

section \<open>Properties of the Gaussian evaluator\<close>

text \<open>
  The number 1 does not underflow, and the square of \<open>2^-600\<close> does.
\<close>

lemma underflows_zero: "underflows 0"
  by (simp add: underflows_def)

lemma not_underflows_one: "\<not> underflows 1"
proof -
  have "(1::real) < 2 ^ 1075" by (rule one_less_power) simp_all
  then show ?thesis by (simp add: underflows_def)
qed

lemma underflows_tiny: "underflows ((1 / 2 ^ 600)\<^sup>2)"
proof -
  have "((1 / 2 ^ 600)\<^sup>2 :: real) = 1 / 2 ^ 1200"
    by (simp add: power_divide flip: power_mult)
  moreover have "(2::real) ^ 1075 \<le> 2 ^ 1200"
    by (rule power_increasing) simp_all
  ultimately show ?thesis by (simp add: underflows_def field_simps)
qed

text \<open>
  C8, as amended. With \<open>sigma = 0\<close> the evaluator divides nothing: the guard skips the
  assignment and the return raises UnboundLocalError. For every other \<open>sigma\<close> whose
  square does not underflow to \<open>0.0\<close> it returns
  \<open>|a| * exp (-(x - x0)^2 / (2 * sigma^2))\<close> at each point of \<open>x\<close>. For a
  \<open>sigma\<close> that is not zero and whose square underflows, the guard passes and the
  division is by zero.
\<close>

theorem gauss_guarded:
  "gauss x x0 0 a = Inl UnboundLocalError \<and>
   (sigma \<noteq> 0 \<and> \<not> underflows (sigma\<^sup>2) \<longrightarrow>
      gauss x x0 sigma a = Inr (map (\<lambda>xi. \<bar>a\<bar> * exp (- ((xi - x0)\<^sup>2) / (2 * sigma\<^sup>2))) x)) \<and>
   (sigma \<noteq> 0 \<and> underflows (sigma\<^sup>2) \<longrightarrow> gauss x x0 sigma a = Inl DivisionByZero)"
  by (simp add: gauss_def abs_mult)

theorem gauss_guarded_witness:
  "gauss [0, 1] 0 0 (- 2) = Inl UnboundLocalError \<and>
   (1::real) \<noteq> 0 \<and> \<not> underflows (1\<^sup>2) \<and> gauss [0] 0 1 (- 2) = Inr [2] \<and>
   (1 / 2 ^ 600 :: real) \<noteq> 0 \<and> underflows ((1 / 2 ^ 600)\<^sup>2) \<and>
   gauss [0, 1] 0 (1 / 2 ^ 600) 1 = Inl DivisionByZero"
proof -
  have one: "\<not> underflows (1\<^sup>2)" using not_underflows_one by simp
  have nz: "(1 / 2 ^ 600 :: real) \<noteq> 0" by simp
  from gauss_guarded [of "[0]" 0 "- 2" 1] one
  have a: "gauss [0, 1] 0 0 (- 2) = Inl UnboundLocalError" "gauss [0] 0 1 (- 2) = Inr [2]"
    by (simp_all add: gauss_def)
  from gauss_guarded [of "[0, 1]" 0 1 "1 / 2 ^ 600"] nz underflows_tiny
  have b: "gauss [0, 1] 0 (1 / 2 ^ 600) 1 = Inl DivisionByZero" by blast
  from a b one nz underflows_tiny show ?thesis by simp
qed

text \<open>
  C8 as stated fails: called with \<open>sigma = 0\<close> the evaluator does not end in a division
  by zero, it ends in the unbound local; and called with \<open>sigma = 2^-600\<close>, which is
  not zero, it does divide by zero and returns no values of the formula.
\<close>

theorem gauss_zero_sigma_counterexample:
  "gauss [0, 1] 0 0 1 = Inl UnboundLocalError \<and> gauss [0, 1] 0 0 1 \<noteq> Inl DivisionByZero \<and>
   (1 / 2 ^ 600 :: real) \<noteq> 0 \<and> gauss [0, 1] 0 (1 / 2 ^ 600) 1 = Inl DivisionByZero"
  using underflows_tiny by (simp add: gauss_def)

section \<open>Properties of the smoothing filter\<close>

lemma length_slice_down:
  "length (slice_down xs start stop) =
     (let n = int (length xs);
          hi = (if start < 0 then max (start + n) (- 1) else min start (n - 1));
          lo = (if stop < 0 then max (stop + n) (- 1) else min stop (n - 1))
      in nat (hi - lo))"
  by (simp add: slice_down_def Let_def)

lemma length_np_hanning: "1 \<le> M \<Longrightarrow> length (np_hanning M) = nat M"
  by (simp add: np_hanning_def)

lemma length_np_convolve_valid:
  assumes "a \<noteq> []" and "length a \<le> length v"
  shows "\<exists>y. np_convolve_valid a v = Inr y \<and> length y = length v - length a + 1"
proof (cases "length a = length v")
  case True
  with assms show ?thesis by (auto simp add: np_convolve_valid_def Let_def)
next
  case False
  with assms have "length a < length v" by simp
  with assms show ?thesis by (auto simp add: np_convolve_valid_def Let_def)
qed

text \<open>
  C6, as amended. For a window length below 3 the filter returns its input unchanged
  exactly when the input is one-dimensional and has at least \<open>window_len\<close> elements;
  otherwise the two shape checks, which come first, raise ValueError. The
  \<^verbatim>\<open>window\<close> argument plays no part.
\<close>

theorem smooth_short_window:
  "window_len < 3 \<Longrightarrow>
   smooth x window_len window =
     (if ndim x = 1 \<and> window_len \<le> int (nd_size x) then Inr x else Inl ValueError)"
  by (auto simp add: smooth_def)

theorem smooth_short_window_witness:
  "(2::int) < 3 \<and> smooth (array1 [5, 7]) 2 None = Inr (array1 [5, 7])"
  using smooth_short_window [of 2 "array1 [5, 7]" None]
  by (simp add: array1_def ndim_def nd_size_def)

text \<open>
  C6 as stated fails: a two-dimensional input, and a one-dimensional input shorter than
  the window, are rejected although the window length is below 3.
\<close>

theorem smooth_short_window_counterexample:
  "smooth (NDArray [2, 2] [1, 2, 3, 4]) 2 None = Inl ValueError \<and>
   smooth (array1 [1]) 2 None = Inl ValueError"
  by (simp add: smooth_def array1_def ndim_def nd_size_def)

text \<open>
  C10, as amended. For a one-dimensional input of \<open>n\<close> elements, a window length
  between 3 and \<open>n\<close> and the window argument left at its default, the filter returns a
  one-dimensional array of \<open>n + window_len - 1\<close> elements, which is more than \<open>n\<close>.
\<close>

theorem smooth_length:
  assumes "3 \<le> window_len" and "window_len \<le> int (length xs)"
  shows "\<exists>y. smooth (array1 xs) window_len None = Inr (array1 y) \<and>
             length y = length xs + nat window_len - 1 \<and> length xs < length y"
proof -
  let ?s = "slice_down xs (window_len - 1) 0 @ xs @ slice_down xs (- 2) (- window_len - 1)"
  let ?w = "np_hanning window_len"
  let ?a = "map (\<lambda>wi. wi / sum_list ?w) ?w"
  have la: "length ?a = nat window_len"
    using assms by (simp add: length_np_hanning)
  have ls: "length ?s = length xs + 2 * (nat window_len - 1)"
    using assms by (auto simp add: length_slice_down Let_def)
  have ne: "?a \<noteq> []"
    using la assms by (metis length_0_conv nat_0_iff not_numeral_le_zero order_trans)
  have le: "length ?a \<le> length ?s"
    using la ls assms by linarith
  from length_np_convolve_valid [OF ne le] obtain y
    where y: "np_convolve_valid ?a ?s = Inr y" and ly: "length y = length ?s - length ?a + 1"
    by blast
  have sm: "smooth (array1 xs) window_len None = Inr (array1 y)"
    using assms y by (simp add: smooth_def array1_def ndim_def nd_size_def Let_def)
  have "length y = length xs + nat window_len - 1"
    using ly la ls assms by linarith
  moreover have "length xs < length y"
    using ly la ls assms by linarith
  ultimately show ?thesis using sm by blast
qed

theorem smooth_length_witness:
  "(3::int) \<le> 3 \<and> (3::int) \<le> int (length [1, 2, 4, 8::real]) \<and>
   (\<exists>y. smooth (array1 [1, 2, 4, 8]) 3 None = Inr (array1 y) \<and> length y = 6)"
  using smooth_length [of 3 "[1, 2, 4, 8]"] by auto

text \<open>
  C10 as stated fails: under the same conditions on the input and the window length, a
  call that names a window, one the filter lists or any other, raises UnboundLocalError
  and returns no sequence.
\<close>

theorem smooth_length_counterexample:
  "(3::int) \<le> 3 \<and> (3::int) \<le> int (length [1, 2, 4, 8::real]) \<and>
   smooth (array1 [1, 2, 4, 8]) 3 (Some ''flat'') = Inl UnboundLocalError \<and>
   smooth (array1 [1, 2, 4, 8]) 3 (Some ''boxcar'') = Inl UnboundLocalError"
  by (simp add: smooth_def array1_def ndim_def nd_size_def)

text \<open>
  With an explicit window name and a window length of at least 3, the filter raises
  UnboundLocalError, whatever the name.
\<close>

lemma smooth_explicit_window:
  "ndim x = 1 \<Longrightarrow> window_len \<le> int (nd_size x) \<Longrightarrow> 3 \<le> window_len \<Longrightarrow>
   smooth x window_len (Some w) = Inl UnboundLocalError"
  by (simp add: smooth_def)

section \<open>Properties of the K-closest selector\<close>

lemma distinct_snd_pq_put:
  "distinct (map snd (pq_put e pq)) \<longleftrightarrow> snd e \<notin> snd ` set pq \<and> distinct (map snd pq)"
  unfolding pq_put_def by (induction pq) (auto simp add: set_insort_key)

lemma set_pq_put: "set (pq_put e pq) = insert e (set pq)"
  by (simp add: pq_put_def set_insort_key)

lemma sorted_pq_put: "sorted (pq_put e pq) = sorted pq"
  by (simp add: pq_put_def sorted_insort)

lemma length_pq_put: "length (pq_put e pq) = Suc (length pq)"
  by (simp add: pq_put_def)

lemma heap_inv_first_step:
  assumes inv: "heap_inv arr x m pq" and all: "snd ` set pq = {..<m}"
  shows "heap_inv arr x (Suc m) (pq_put (- \<bar>arr ! m - x\<bar>, m) pq) \<and>
         snd ` set (pq_put (- \<bar>arr ! m - x\<bar>, m) pq) = {..<Suc m}"
proof -
  have "m \<notin> snd ` set pq" using all by simp
  moreover have "\<forall>j < Suc m. j \<in> snd ` insert (- \<bar>arr ! m - x\<bar>, m) (set pq)"
    using all by (auto simp add: less_Suc_eq)
  ultimately show ?thesis
    using inv all unfolding heap_inv_def
    by (auto simp add: set_pq_put sorted_pq_put distinct_snd_pq_put lessThan_Suc less_Suc_eq)
qed

lemma heap_first_inv:
  assumes "heap_inv arr x a pq" "snd ` set pq = {..<a}" "a \<le> b" "b \<le> length arr"
  shows "\<exists>pq'. heap_first arr x [a..<b] pq = Inr pq' \<and> heap_inv arr x b pq' \<and>
               snd ` set pq' = {..<b} \<and> length pq' = length pq + (b - a)"
  using assms
proof (induction "b - a" arbitrary: a pq)
  case 0
  then show ?case by simp
next
  case (Suc d)
  then have lt: "a < b" and len: "a < length arr" by simp_all
  then have upt: "[a..<b] = a # [Suc a..<b]" by (simp add: upt_conv_Cons)
  let ?pq = "pq_put (- \<bar>arr ! a - x\<bar>, a) pq"
  from heap_inv_first_step [OF Suc.prems(1,2)]
  have inv: "heap_inv arr x (Suc a) ?pq" and all: "snd ` set ?pq = {..<Suc a}" by simp_all
  from Suc.hyps(2) have d: "d = b - Suc a" by simp
  from Suc.hyps(1) [OF d inv all _ Suc.prems(4)] lt obtain pq' where
    "heap_first arr x [Suc a..<b] ?pq = Inr pq'" "heap_inv arr x b pq'"
    "snd ` set pq' = {..<b}" "length pq' = length ?pq + (b - Suc a)"
    by auto
  with lt len show ?case
    by (simp add: upt nth_chk_def length_pq_put)
qed

lemma heap_inv_rest_step:
  assumes inv: "heap_inv arr x m (e # rest)"
  shows "heap_inv arr x (Suc m)
           (if \<bar>arr ! m - x\<bar> > - fst e then pq_put (- (- fst e), snd e) rest
            else pq_put (- \<bar>arr ! m - x\<bar>, m) rest)"
proof -
  from inv have srt: "sorted (e # rest)" and dist: "distinct (map snd (e # rest))"
    and keys: "\<forall>e' \<in> set (e # rest). snd e' < m \<and> fst e' = - \<bar>arr ! snd e' - x\<bar>"
    and unsel: "\<forall>j < m. j \<notin> snd ` set (e # rest) \<longrightarrow>
                  (\<forall>e' \<in> set (e # rest). \<bar>arr ! snd e' - x\<bar> \<le> \<bar>arr ! j - x\<bar>)"
    unfolding heap_inv_def by blast+
  let ?curr = "\<bar>arr ! snd e - x\<bar>"
  let ?diff = "\<bar>arr ! m - x\<bar>"
  have fe: "fst e = - ?curr" using keys by simp
  have root: "\<bar>arr ! snd e' - x\<bar> \<le> ?curr" if "e' \<in> set rest" for e'
  proof -
    from srt that have "e \<le> e'" by simp
    then have "fst e \<le> fst e'" by (auto simp add: less_eq_prod_def)
    with keys that fe show ?thesis by simp
  qed
  show ?thesis
  proof (cases "?diff > - fst e")
    case True
    then have big: "?curr < ?diff" using fe by simp
    have same: "(- (- fst e), snd e) = e" by simp
    have "heap_inv arr x (Suc m) (pq_put e rest)"
      unfolding heap_inv_def
    proof (intro conjI ballI allI impI)
      show "sorted (pq_put e rest)" using srt by (simp add: sorted_pq_put)
      show "distinct (map snd (pq_put e rest))" using dist by (simp add: distinct_snd_pq_put)
      fix e' assume "e' \<in> set (pq_put e rest)"
      then have "e' \<in> set (e # rest)" by (simp add: set_pq_put)
      with keys show "snd e' < Suc m" "fst e' = - \<bar>arr ! snd e' - x\<bar>"
        by (auto simp add: less_Suc_eq)
    next
      fix j e' assume j: "j < Suc m" "j \<notin> snd ` set (pq_put e rest)" and e': "e' \<in> set (pq_put e rest)"
      from e' have in': "e' \<in> set (e # rest)" by (simp add: set_pq_put)
      from j have nj: "j \<notin> snd ` set (e # rest)" by (simp add: set_pq_put)
      show "\<bar>arr ! snd e' - x\<bar> \<le> \<bar>arr ! j - x\<bar>"
      proof (cases "j = m")
        case True
        from in' root [of e'] have "\<bar>arr ! snd e' - x\<bar> \<le> ?curr" by auto
        with big True show ?thesis by simp
      next
        case False
        with j have "j < m" by simp
        with unsel nj in' show ?thesis by blast
      qed
    qed
    with True same show ?thesis by simp
  next
    case False
    then have small: "?diff \<le> ?curr" using fe by simp
    let ?new = "(- ?diff, m)"
    have mnew: "m \<notin> snd ` set rest" using keys by auto
    have "heap_inv arr x (Suc m) (pq_put ?new rest)"
      unfolding heap_inv_def
    proof (intro conjI ballI allI impI)
      show "sorted (pq_put ?new rest)" using srt by (simp add: sorted_pq_put)
      show "distinct (map snd (pq_put ?new rest))"
        using dist mnew by (simp add: distinct_snd_pq_put)
      fix e' assume "e' \<in> set (pq_put ?new rest)"
      then have "e' = ?new \<or> e' \<in> set rest" by (simp add: set_pq_put)
      with keys show "snd e' < Suc m" "fst e' = - \<bar>arr ! snd e' - x\<bar>"
        by (auto simp add: less_Suc_eq)
    next
      fix j e' assume j: "j < Suc m" "j \<notin> snd ` set (pq_put ?new rest)"
        and e': "e' \<in> set (pq_put ?new rest)"
      from e' have e'': "e' = ?new \<or> e' \<in> set rest" by (simp add: set_pq_put)
      then have le_curr: "\<bar>arr ! snd e' - x\<bar> \<le> ?curr" using root [of e'] small by auto
      from j have jm: "j \<noteq> m" and jrest: "j \<notin> snd ` set rest" by (auto simp add: set_pq_put)
      with j have jlt: "j < m" by simp
      show "\<bar>arr ! snd e' - x\<bar> \<le> \<bar>arr ! j - x\<bar>"
      proof (cases "j = snd e")
        case True
        with le_curr show ?thesis by simp
      next
        case False
        with jrest have "j \<notin> snd ` set (e # rest)" by simp
        with unsel jlt have "?curr \<le> \<bar>arr ! j - x\<bar>" by simp
        with le_curr show ?thesis by simp
      qed
    qed
    with False show ?thesis by simp
  qed
qed

lemma heap_rest_inv:
  assumes "heap_inv arr x m pq" "pq \<noteq> []" "m \<le> n" "n \<le> length arr"
  shows "\<exists>pq'. heap_rest arr x [m..<n] pq = Inr pq' \<and> heap_inv arr x n pq' \<and>
               length pq' = length pq"
  using assms
proof (induction "n - m" arbitrary: m pq)
  case 0
  then show ?case by simp
next
  case (Suc d)
  then have lt: "m < n" and len: "m < length arr" by simp_all
  then have upt: "[m..<n] = m # [Suc m..<n]" by (simp add: upt_conv_Cons)
  from Suc.prems(2) obtain e rest where pq: "pq = e # rest" by (cases pq) auto
  let ?pq = "if \<bar>arr ! m - x\<bar> > - fst e then pq_put (- (- fst e), snd e) rest
             else pq_put (- \<bar>arr ! m - x\<bar>, m) rest"
  from heap_inv_rest_step [OF Suc.prems(1) [unfolded pq]]
  have inv: "heap_inv arr x (Suc m) ?pq" .
  have ne: "?pq \<noteq> []" and ln: "length ?pq = length pq"
    using pq by (auto simp add: pq_put_def)
  from Suc.hyps(2) have d: "d = n - Suc m" by simp
  from Suc.hyps(1) [OF d inv ne _ Suc.prems(4)] lt obtain pq' where
    r: "heap_rest arr x [Suc m..<n] ?pq = Inr pq'" "heap_inv arr x n pq'" "length pq' = length ?pq"
    by auto
  have "heap_rest arr x [m..<n] pq = heap_rest arr x [Suc m..<n] ?pq"
    using len by (cases e) (simp add: upt pq nth_chk_def pq_get_def Let_def)
  with r ln show ?case by simp
qed

lemma heap_drain_map:
  "\<forall>e \<in> set pq. snd e < length arr \<Longrightarrow> heap_drain arr pq = Inr (map (\<lambda>e. arr ! snd e) pq)"
  by (induction pq) (auto simp add: nth_chk_def)

lemma heap_first_short:
  "a \<le> length arr \<Longrightarrow> length arr < b \<Longrightarrow> heap_first arr x [a..<b] pq = Inl IndexError"
proof (induction "length arr - a" arbitrary: a pq)
  case 0
  then have "a = length arr" by simp
  with 0 have "[a..<b] = length arr # [Suc (length arr)..<b]" by (simp add: upt_conv_Cons)
  then show ?case by (simp add: nth_chk_def)
next
  case (Suc d)
  then have lt: "a < length arr" "a < b" by simp_all
  then have upt: "[a..<b] = a # [Suc a..<b]" by (simp add: upt_conv_Cons)
  from Suc have "d = length arr - Suc a" "Suc a \<le> length arr" by simp_all
  from Suc.hyps(1) [OF this Suc.prems(2)] lt show ?case
    by (simp add: upt nth_chk_def)
qed

text \<open>
  When the array has fewer than \<open>k\<close> elements, the first loop reads past its end.
\<close>

lemma printKclosest_short:
  "length arr < k \<Longrightarrow> printKclosest arr n x k = Inl IndexError"
  by (simp add: printKclosest_def heap_first_short)

text \<open>
  For \<open>1 \<le> k \<le> n \<le> len(arr)\<close> the selector returns the values at \<open>k\<close> distinct
  positions among the first \<open>n\<close>, and no position left out is strictly closer to the
  target than a position selected.
\<close>

lemma printKclosest_selects:
  assumes "1 \<le> k" "k \<le> n" "n \<le> length arr"
  shows "\<exists>sel. printKclosest arr n x k = Inr (map (\<lambda>q. arr ! q) sel) \<and>
           length sel = k \<and> distinct sel \<and> (\<forall>q \<in> set sel. q < n) \<and>
           (\<forall>j < n. j \<notin> set sel \<longrightarrow> (\<forall>q \<in> set sel. \<bar>arr ! q - x\<bar> \<le> \<bar>arr ! j - x\<bar>))"
proof -
  have init: "heap_inv arr x 0 []" "snd ` set ([] :: pqueue) = {..<0}"
    by (simp_all add: heap_inv_def)
  from assms have kl: "k \<le> length arr" by simp
  from heap_first_inv [OF init _ kl] obtain pq where
    first: "heap_first arr x [0..<k] [] = Inr pq" and inv: "heap_inv arr x k pq"
    and lpq: "length pq = k"
    by auto
  from lpq assms(1) have ne: "pq \<noteq> []" by auto
  from heap_rest_inv [OF inv ne assms(2,3)] obtain pq' where
    rest: "heap_rest arr x [k..<n] pq = Inr pq'" and inv': "heap_inv arr x n pq'"
    and lpq': "length pq' = k"
    using lpq by auto
  from inv' have idx: "\<forall>e \<in> set pq'. snd e < length arr"
    using assms(3) unfolding heap_inv_def by fastforce
  let ?sel = "map snd pq'"
  have "printKclosest arr n x k = Inr (map (\<lambda>q. arr ! q) ?sel)"
    using first rest heap_drain_map [OF idx] by (simp add: printKclosest_def comp_def)
  moreover have "length ?sel = k" using lpq' by simp
  moreover have "distinct ?sel" using inv' unfolding heap_inv_def by blast
  moreover have "\<forall>q \<in> set ?sel. q < n" using inv' unfolding heap_inv_def by auto
  moreover have "\<forall>j < n. j \<notin> set ?sel \<longrightarrow> (\<forall>q \<in> set ?sel. \<bar>arr ! q - x\<bar> \<le> \<bar>arr ! j - x\<bar>)"
    using inv' unfolding heap_inv_def by auto
  ultimately show ?thesis by blast
qed

text \<open>
  C7. With \<open>k = 0\<close> and \<open>n = 1\<close> the first loop puts nothing in the queue and the
  second loop calls \<^verbatim>\<open>pq.get()\<close> on the empty queue, which blocks for ever: the
  call does not return the empty list.
\<close>

theorem printKclosest_zero_blocks:
  "printKclosest [1] 1 0 0 = Inl Deadlock"
  by (simp add: printKclosest_def nth_chk_def pq_get_def)

section \<open>Properties of the peak and parameter estimator\<close>

text \<open>
  The significance filter never raises, and it keeps no peak exactly when every local
  maximum is at most 0.75% of the largest density.
\<close>

lemma maxima_Nil: "maxima [] = []"
  by (simp add: maxima_def argrelextrema_greater_def)

lemma corrected_extrema_total:
  "corrected_extrema distributiony =
     Inr (filter (\<lambda>item. item > Max (set distributiony) * 0.0075) (maxima distributiony))"
proof (cases "maxima distributiony")
  case Nil
  then show ?thesis by (simp add: corrected_extrema_def)
next
  case (Cons m ms)
  then have "distributiony \<noteq> []" using maxima_Nil by auto
  then have pm: "py_max distributiony = Inr (Max (set distributiony))" by (simp add: py_max_Inr)
  show ?thesis unfolding corrected_extrema_def by (simp only: Cons pm list.case sum.case)
qed

lemma corrected_extrema_empty_iff:
  "corrected_extrema distributiony = Inr [] \<longleftrightarrow>
   (\<forall>item \<in> set (maxima distributiony). item \<le> Max (set distributiony) * 0.0075)"
  by (auto simp add: corrected_extrema_total filter_empty_conv not_less)

lemma corrected_extrema_subset:
  "corrected_extrema distributiony = Inr es \<Longrightarrow> set es \<subseteq> set distributiony"
  by (auto simp add: corrected_extrema_total maxima_def argrelextrema_greater_def)

text \<open>
  C9. When the significance filter keeps no peak, the model selection reads
  \<^verbatim>\<open>peak_number[-1]\<close>, the last entry of the table, and the initial-guess vector
  is empty: the step returns the ten-component model and raises nothing.
\<close>

theorem no_peaks_selects_decamodal:
  "corrected_extrema distributiony = Inr [] \<Longrightarrow>
   gauss_fit_guess distributionx distributiony = Inr (Decamodal, [])"
  by (simp add: gauss_fit_guess_def py_getitem_def peak_number_def)

theorem no_peaks_selects_decamodal_witness:
  "corrected_extrema [1, 2, 3] = Inr [] \<and> gauss_fit_guess [0, 1, 2] [1, 2, 3] = Inr (Decamodal, [])"
proof -
  have h: "corrected_extrema [1, 2, 3] = Inr []"
    by (simp add: corrected_extrema_def maxima_def argrelextrema_greater_def)
  show ?thesis using h no_peaks_selects_decamodal [OF h, of "[0, 1, 2]"] by simp
qed

text \<open>
  With fewer than \<open>noc = 28\<close> points in the smoothed histogram the estimator raises
  IndexError as soon as one peak survives; so it does on the 19-bin histogram of the
  samples \<open>0, 1, 1, 1, 2, 3, 4\<close>, which a window below 3 leaves unsmoothed.
\<close>

lemma gauss_fit_guess_too_short:
  assumes short: "length distributiony < noc"
    and len: "length distributionx = length distributiony"
    and peak: "corrected_extrema distributiony = Inr (e # es)"
  shows "gauss_fit_guess distributionx distributiony = Inl IndexError"
proof -
  from corrected_extrema_subset [OF peak] have "e \<in> set distributiony" by simp
  from first_index_Some [OF this] obtain i where
    i: "i < length distributiony" "first_index distributiony e = Some i" by blast
  with len have mx: "mean_xval distributionx distributiony e = Inr (distributionx ! i)"
    by (simp add: mean_xval_def np_where_first_def nth_chk_def)
  have "xsig distributionx distributiony e (distributionx ! i) = Inl IndexError"
    using short by (simp add: xsig_def printKclosest_short)
  with mx have "peak_sigma distributionx distributiony e = Inl IndexError"
    by (simp add: peak_sigma_def)
  with peak show ?thesis by (simp add: gauss_fit_guess_def)
qed

lemma nineteen_bins:
  "gauss_fit_guess
     [0, 4/19, 8/19, 12/19, 16/19, 20/19, 24/19, 28/19, 32/19, 36/19, 40/19, 44/19, 48/19,
      52/19, 56/19, 60/19, 64/19, 68/19, 72/19]
     [19/28, 0, 0, 0, 57/28, 0, 0, 0, 0, 19/28, 0, 0, 0, 0, 19/28, 0, 0, 0, 19/28]
   = Inl IndexError"
proof (rule gauss_fit_guess_too_short)
  show "corrected_extrema
     [19/28, 0, 0, 0, 57/28, 0, 0, 0, 0, 19/28, 0, 0, 0, 0, 19/28, 0, 0, 0, 19/28]
     = Inr [57/28, 19/28, 19/28]"
    by (simp add: corrected_extrema_def maxima_def argrelextrema_greater_def py_max_def upt_conv_Cons)
qed (simp_all add: noc_def)

text \<open>
  The estimator on a triangular density of 31 bins, peak 16 at \<open>x = 15\<close>: the 28
  values closest to half the peak's height, the half-maximum crossing found from them,
  and the resulting sigma.
\<close>

lemma printKclosest_triangle:
  "printKclosest [1,2,3,4,5,6,7,8,9,10,11,12,13,14,15,16,15,14,13,12,11,10,9,8,7,6,5,4,3,2,1]
     (length [1,2,3,4,5,6,7,8,9,10,11,12,13,14,15,16,15,14,13,12,11,10,9,8,7,6,5,4,3,2,1::real])
     (16 * 0.5) 28
    = Inr [15, 1, 2, 14, 14, 2, 3, 13, 13, 3, 4, 12, 12, 4, 5, 11, 11, 5, 6, 10, 10, 6, 7, 9, 9, 7, 8, 8]"
  by (simp add: printKclosest_def nth_chk_def pq_put_def pq_get_def upt_conv_Cons)

lemma mean_xval_triangle:
  "mean_xval [0,1,2,3,4,5,6,7,8,9,10,11,12,13,14,15,16,17,18,19,20,21,22,23,24,25,26,27,28,29,30]
     [1,2,3,4,5,6,7,8,9,10,11,12,13,14,15,16,15,14,13,12,11,10,9,8,7,6,5,4,3,2,1] 16 = Inr 15"
  by (simp add: mean_xval_def np_where_first_def nth_chk_def)

lemma xsig_triangle:
  "xsig [0,1,2,3,4,5,6,7,8,9,10,11,12,13,14,15,16,17,18,19,20,21,22,23,24,25,26,27,28,29,30]
     [1,2,3,4,5,6,7,8,9,10,11,12,13,14,15,16,15,14,13,12,11,10,9,8,7,6,5,4,3,2,1] 16 15 = Inr 14"
  unfolding xsig_def noc_def printKclosest_triangle
  by (simp add: np_where_first_def nth_chk_def find_nearest_def np_argmin_def py_min_def
        py_index_def)

lemma peak_sigma_triangle:
  "peak_sigma [0,1,2,3,4,5,6,7,8,9,10,11,12,13,14,15,16,17,18,19,20,21,22,23,24,25,26,27,28,29,30]
     [1,2,3,4,5,6,7,8,9,10,11,12,13,14,15,16,15,14,13,12,11,10,9,8,7,6,5,4,3,2,1] 16
   = Inr (1 / (2 * sqrt (2 * ln 2)))"
  by (simp add: peak_sigma_def mean_xval_triangle xsig_triangle)

lemma sqrt_2_ln_2_pos: "0 < sqrt (2 * ln (2::real))"
  by simp

text \<open>
  In general, the sigma of a peak is the distance between the half-maximum crossing and
  the peak, divided by \<open>2 * sqrt (2 * ln 2)\<close>; and the nearest-value finder returns a
  member of its array.
\<close>

lemma peak_sigma_formula:
  assumes "peak_sigma distributionx distributiony extrema = Inr sigma"
  shows "\<exists>mean_x x_sig.
           mean_xval distributionx distributiony extrema = Inr mean_x \<and>
           xsig distributionx distributiony extrema mean_x = Inr x_sig \<and>
           sigma = \<bar>x_sig - mean_x\<bar> / (2 * sqrt (2 * ln 2))"
  using assms by (auto simp add: peak_sigma_def Let_def split: sum.splits)

lemma find_nearest_member: "find_nearest distr val = Inr v \<Longrightarrow> v \<in> set distr"
  by (auto simp add: find_nearest_def nth_chk_def split: sum.splits if_splits)

text \<open>
  C3. The source assigns \<^verbatim>\<open>FWHM = |xsig - mean_xval|\<close>, the distance from the
  peak to the half-maximum crossing, with no factor 2, and divides it by
  \<open>2 * sqrt (2 * ln 2)\<close>. On the triangular density the peak is at 15 and the crossing
  at 14, so sigma is \<open>|14 - 15| / (2 * sqrt (2 * ln 2))\<close>, which is less than the
  \<open>|14 - 15| / sqrt (2 * ln 2)\<close> of the claim.
\<close>

theorem fwhm_is_half_width:
  "mean_xval [0,1,2,3,4,5,6,7,8,9,10,11,12,13,14,15,16,17,18,19,20,21,22,23,24,25,26,27,28,29,30]
     [1,2,3,4,5,6,7,8,9,10,11,12,13,14,15,16,15,14,13,12,11,10,9,8,7,6,5,4,3,2,1] 16 = Inr 15 \<and>
   xsig [0,1,2,3,4,5,6,7,8,9,10,11,12,13,14,15,16,17,18,19,20,21,22,23,24,25,26,27,28,29,30]
     [1,2,3,4,5,6,7,8,9,10,11,12,13,14,15,16,15,14,13,12,11,10,9,8,7,6,5,4,3,2,1] 16 15 = Inr 14 \<and>
   peak_sigma [0,1,2,3,4,5,6,7,8,9,10,11,12,13,14,15,16,17,18,19,20,21,22,23,24,25,26,27,28,29,30]
     [1,2,3,4,5,6,7,8,9,10,11,12,13,14,15,16,15,14,13,12,11,10,9,8,7,6,5,4,3,2,1] 16
     = Inr (\<bar>14 - 15\<bar> / (2 * sqrt (2 * ln 2))) \<and>
   \<bar>14 - 15\<bar> / (2 * sqrt (2 * ln 2)) < \<bar>14 - 15 :: real\<bar> / sqrt (2 * ln 2)"
proof -
  have "1 / (2 * sqrt (2 * ln 2)) < 1 / sqrt (2 * ln (2::real))"
    using sqrt_2_ln_2_pos by (simp add: field_simps)
  then show ?thesis
    by (simp add: mean_xval_triangle xsig_triangle peak_sigma_triangle)
qed

section \<open>Properties of the retry loop\<close>

text \<open>
  The table of adjustments is \<open>-1, 1, -2, 2, ...\<close>, with 19998 entries.
\<close>

lemma length_np_insert_arange:
  "length (np_insert_arange arr vals) = 2 * min (length vals) (length arr)"
  unfolding np_insert_arange_def
  by (induction vals arbitrary: arr) (auto simp add: zip_Cons1 split: list.splits)

lemma nth_np_insert_arange:
  "n < 2 * min (length vals) (length arr) \<Longrightarrow>
   np_insert_arange arr vals ! n = (if even n then vals ! (n div 2) else arr ! (n div 2))"
  unfolding np_insert_arange_def
proof (induction vals arbitrary: arr n)
  case Nil
  then show ?case by simp
next
  case (Cons v vals)
  show ?case
  proof (cases arr)
    case Nil
    with Cons.prems show ?thesis by simp
  next
    case (Cons a arr')
    show ?thesis
    proof (cases n)
      case 0
      with Cons show ?thesis by simp
    next
      case (Suc m)
      show ?thesis
      proof (cases m)
        case 0
        with Suc Cons show ?thesis by simp
      next
        case (Suc k)
        with \<open>n = Suc m\<close> Cons.prems Cons have "k < 2 * min (length vals) (length arr')" by simp
        from Cons.IH [OF this] \<open>n = Suc m\<close> Suc Cons show ?thesis by simp
      qed
    qed
  qed
qed

lemma length_bin_adjust: "length bin_adjust = 19998"
  by (simp add: bin_adjust_def length_np_insert_arange bin_adjust_down_def bin_adjust_up_def)

lemma nth_bin_adjust:
  assumes "n < 19998"
  shows "bin_adjust ! n = (if even n then - (int (n div 2) + 1) else int (n div 2) + 1)"
proof -
  have "n div 2 < 9999" using assms by simp
  then have up: "bin_adjust_up ! (n div 2) = int (n div 2) + 1"
    by (simp add: bin_adjust_up_def)
  have "n div 2 < length bin_adjust_up" using \<open>n div 2 < 9999\<close> by (simp add: bin_adjust_up_def)
  then have down: "bin_adjust_down ! (n div 2) = - (int (n div 2) + 1)"
    using up by (simp add: bin_adjust_down_def)
  have "n < 2 * min (length bin_adjust_down) (length bin_adjust_up)"
    using assms by (simp add: bin_adjust_down_def bin_adjust_up_def)
  then show ?thesis
    using up down by (simp add: bin_adjust_def nth_np_insert_arange)
qed

text \<open>
  What a successful run has called: the first call uses the given bin count, call \<open>j\<close>
  after it the origin plus entry \<open>k + j\<close> of the table, every call the same smoothing
  window; every call but the last failed and the last returned the result.
\<close>

lemma retry_loop_calls:
  "retry_loop gf bo sm gb k calls = Inr (r, k', calls') \<Longrightarrow>
   k \<le> k' \<and> length calls' = length calls + (k' - k) + 1 \<and> take (length calls) calls' = calls \<and>
   calls' ! length calls = (gb, sm) \<and>
   (\<forall>j. 1 \<le> j \<and> j \<le> k' - k \<longrightarrow> calls' ! (length calls + j) = (bo + bin_adjust ! (k + j), sm)) \<and>
   gf (fst (last calls')) (snd (last calls')) = Some r"
proof (induction gf bo sm gb k calls rule: retry_loop.induct)
  case (1 gf bo sm gb k calls)
  show ?case
  proof (cases "gf gb sm")
    case (Some fit)
    with "1.prems" have "fit = r" "k = k'" "calls' = calls @ [(gb, sm)]"
      by (simp_all add: retry_loop.simps)
    with Some show ?thesis by simp
  next
    case None
    with "1.prems" have lt: "k + 1 < length bin_adjust"
      by (simp add: retry_loop.simps split: if_splits)
    with "1.prems" None have rec:
      "retry_loop gf bo sm (bo + bin_adjust ! (k + 1)) (k + 1) (calls @ [(gb, sm)]) = Inr (r, k', calls')"
      by (simp add: retry_loop.simps)
    from "1.IH" [OF None lt rec]
    have le: "k + 1 \<le> k'"
      and len: "length calls' = length (calls @ [(gb, sm)]) + (k' - (k + 1)) + 1"
      and tk: "take (length (calls @ [(gb, sm)])) calls' = calls @ [(gb, sm)]"
      and hd: "calls' ! length (calls @ [(gb, sm)]) = (bo + bin_adjust ! (k + 1), sm)"
      and rest: "\<forall>j. 1 \<le> j \<and> j \<le> k' - (k + 1) \<longrightarrow>
                   calls' ! (length (calls @ [(gb, sm)]) + j) = (bo + bin_adjust ! (k + 1 + j), sm)"
      and ok: "gf (fst (last calls')) (snd (last calls')) = Some r"
      by blast+
    have a: "k \<le> k'" using le by simp
    have b: "length calls' = length calls + (k' - k) + 1" using len le by simp
    have c: "take (length calls) calls' = calls"
    proof -
      have "take (length calls) (take (length calls + 1) calls') = take (length calls) (calls @ [(gb, sm)])"
        using tk by simp
      then show ?thesis by (simp add: min_def)
    qed
    have d: "calls' ! length calls = (gb, sm)"
    proof -
      have "length calls < length calls + 1" by simp
      then have "take (length calls + 1) calls' ! length calls = calls' ! length calls"
        by (rule nth_take)
      with tk show ?thesis by simp
    qed
    have e: "\<forall>j. 1 \<le> j \<and> j \<le> k' - k \<longrightarrow> calls' ! (length calls + j) = (bo + bin_adjust ! (k + j), sm)"
    proof (intro allI impI)
      fix j assume j: "1 \<le> j \<and> j \<le> k' - k"
      show "calls' ! (length calls + j) = (bo + bin_adjust ! (k + j), sm)"
      proof (cases "j = 1")
        case True
        with hd show ?thesis by simp
      next
        case False
        with j have "1 \<le> j - 1 \<and> j - 1 \<le> k' - (k + 1)" by auto
        with rest have "calls' ! (length (calls @ [(gb, sm)]) + (j - 1)) = (bo + bin_adjust ! (k + 1 + (j - 1)), sm)"
          by blast
        with j show ?thesis by simp
      qed
    qed
    from a b c d e ok show ?thesis by blast
  qed
qed

lemma retry_loop_failed:
  "retry_loop gf bo sm gb k calls = Inr (r, k', calls') \<Longrightarrow>
   \<forall>j < length calls' - 1. length calls \<le> j \<longrightarrow> gf (fst (calls' ! j)) (snd (calls' ! j)) = None"
proof (induction gf bo sm gb k calls rule: retry_loop.induct)
  case (1 gf bo sm gb k calls)
  show ?case
  proof (cases "gf gb sm")
    case (Some fit)
    with "1.prems" show ?thesis
      by (auto simp add: retry_loop.simps)
  next
    case None
    with "1.prems" have lt: "k + 1 < length bin_adjust"
      by (simp add: retry_loop.simps split: if_splits)
    with "1.prems" None have rec:
      "retry_loop gf bo sm (bo + bin_adjust ! (k + 1)) (k + 1) (calls @ [(gb, sm)]) = Inr (r, k', calls')"
      by (simp add: retry_loop.simps)
    from "1.IH" [OF None lt rec]
    have ih: "\<forall>j<length calls' - 1. length (calls @ [(gb, sm)]) \<le> j \<longrightarrow>
                gf (fst (calls' ! j)) (snd (calls' ! j)) = None" .
    from retry_loop_calls [OF "1.prems"] have here: "calls' ! length calls = (gb, sm)" by blast
    show ?thesis
    proof (intro allI impI)
      fix j assume j: "j < length calls' - 1" and lj: "length calls \<le> j"
      show "gf (fst (calls' ! j)) (snd (calls' ! j)) = None"
      proof (cases "j = length calls")
        case True
        with here None show ?thesis by simp
      next
        case False
        with lj have "length (calls @ [(gb, sm)]) \<le> j" by simp
        with ih j show ?thesis by blast
      qed
    qed
  qed
qed

lemma retry_loop_bound:
  "retry_loop gf bo sm gb k calls = Inr (r, k', calls') \<Longrightarrow> k' = k \<or> k' < length bin_adjust"
proof (induction gf bo sm gb k calls rule: retry_loop.induct)
  case (1 gf bo sm gb k calls)
  show ?case
  proof (cases "gf gb sm")
    case (Some fit)
    with "1.prems" show ?thesis by (simp add: retry_loop.simps)
  next
    case None
    with "1.prems" have lt: "k + 1 < length bin_adjust"
      by (simp add: retry_loop.simps split: if_splits)
    with "1.prems" None have rec:
      "retry_loop gf bo sm (bo + bin_adjust ! (k + 1)) (k + 1) (calls @ [(gb, sm)]) = Inr (r, k', calls')"
      by (simp add: retry_loop.simps)
    from "1.IH" [OF None lt rec] lt show ?thesis by auto
  qed
qed

lemma retry_loop_success:
  "retry_loop gf bo sm gb k calls = Inr (r, k', calls') \<Longrightarrow> \<exists>b s. gf b s = Some r"
proof (induction gf bo sm gb k calls rule: retry_loop.induct)
  case (1 gf bo sm gb k calls)
  show ?case
  proof (cases "gf gb sm")
    case (Some fit)
    with "1.prems" show ?thesis by (auto simp add: retry_loop.simps)
  next
    case None
    with "1.prems" have lt': "k + 1 < length bin_adjust"
      by (simp add: retry_loop.simps split: if_splits)
    with "1.prems" None have rec:
      "retry_loop gf bo sm (bo + bin_adjust ! (k + 1)) (k + 1) (calls @ [(gb, sm)]) = Inr (r, k', calls')"
      by (simp add: retry_loop.simps)
    from "1.IH" [OF None lt' rec] show ?thesis .
  qed
qed

lemma smart_gauss_fit_calls:
  assumes "smart_gauss_fit gf bins sm = Inr (r, k, calls)"
  shows "length calls = k + 1"
    and "calls ! 0 = (bins, case sm of None \<Rightarrow> int_tenth bins | Some s \<Rightarrow> s)"
    and "\<And>n. 1 \<le> n \<Longrightarrow> n \<le> k \<Longrightarrow>
           calls ! n = (bins + bin_adjust ! n, case sm of None \<Rightarrow> int_tenth bins | Some s \<Rightarrow> s)"
    and "k = 0 \<or> k < length bin_adjust"
proof -
  let ?s = "case sm of None \<Rightarrow> int_tenth bins | Some s \<Rightarrow> s"
  from assms have run: "retry_loop gf bins ?s bins 0 [] = Inr (r, k, calls)"
    by (simp add: smart_gauss_fit_def)
  from retry_loop_calls [OF run] show "length calls = k + 1" by simp
  from retry_loop_calls [OF run] show "calls ! 0 = (bins, ?s)" by simp
  from retry_loop_bound [OF run] show "k = 0 \<or> k < length bin_adjust" .
  fix n :: nat assume "1 \<le> n" "n \<le> k"
  with retry_loop_calls [OF run] show "calls ! n = (bins + bin_adjust ! n, ?s)" by simp
qed

lemma smart_gauss_fit_at_once:
  "smart_gauss_fit (\<lambda>b s. Some fit) gauss_bins gauss_smooth
     = Inr (fit, 0, [(gauss_bins, case gauss_smooth of None \<Rightarrow> int_tenth gauss_bins | Some s \<Rightarrow> s)])"
  by (simp add: smart_gauss_fit_def retry_loop.simps)

text \<open>
  A run from 19 bins with no smoothing window configured, for a fit that raises with
  fewer than 28 bins and returns from 28 bins on.
\<close>

lemma smart_gauss_fit_19:
  "smart_gauss_fit (\<lambda>b s. if b < 28 then None else Some ()) 19 None
     = Inr ((), 17,
         [(19, 1), (20, 1), (17, 1), (21, 1), (16, 1), (22, 1), (15, 1), (23, 1), (14, 1),
          (24, 1), (13, 1), (25, 1), (12, 1), (26, 1), (11, 1), (27, 1), (10, 1), (28, 1)])"
  by (simp add: smart_gauss_fit_def retry_loop.simps length_bin_adjust nth_bin_adjust int_tenth_def)

text \<open>
  C4. The handler increments \<^verbatim>\<open>attempt_no\<close> before it reads
  \<^verbatim>\<open>bin_adjust[attempt_no]\<close>, and the table starts with \<open>-1\<close> at index 0, so
  entry 0 is never read. From 19 bins the retries run with 20, 17, 21, 16, ... bins: the
  second retry uses \<open>19 - 2\<close>, and 18 bins are never tried.
\<close>

theorem second_retry_skips_minus_one:
  "smart_gauss_fit (\<lambda>b s. if b < 28 then None else Some ()) 19 None
     = Inr ((), 17,
         [(19, 1), (20, 1), (17, 1), (21, 1), (16, 1), (22, 1), (15, 1), (23, 1), (14, 1),
          (24, 1), (13, 1), (25, 1), (12, 1), (26, 1), (11, 1), (27, 1), (10, 1), (28, 1)]) \<and>
   bin_adjust ! 0 = - 1 \<and> bin_adjust ! 1 = 1 \<and> bin_adjust ! 2 = - 2 \<and> bin_adjust ! 3 = 2"
  by (simp add: smart_gauss_fit_19 nth_bin_adjust)

text \<open>
  In general, the bin counts of a successful run are the given one and then the origin
  plus \<open>1, -2, 2, -3, 3, ...\<close>.
\<close>

lemma retry_bin_sequence:
  assumes "smart_gauss_fit gauss_fit gauss_bins gauss_smooth = Inr (fit, attempt_no, calls)"
  shows "length calls = attempt_no + 1 \<and> fst (calls ! 0) = gauss_bins \<and>
         (\<forall>n. 1 \<le> n \<and> n \<le> attempt_no \<longrightarrow>
            fst (calls ! n) =
              gauss_bins + (if even n then - (int (n div 2) + 1) else int (n div 2) + 1))"
proof -
  note c = smart_gauss_fit_calls [OF assms]
  have "fst (calls ! n) = gauss_bins + (if even n then - (int (n div 2) + 1) else int (n div 2) + 1)"
    if "1 \<le> n" "n \<le> attempt_no" for n
  proof -
    from that c(4) have "n < 19998" by (simp add: length_bin_adjust)
    from nth_bin_adjust [OF this] c(3) [OF that] show ?thesis by simp
  qed
  with c(1,2) show ?thesis by simp
qed

text \<open>
  C5, as amended. With no smoothing window configured, the window is computed once,
  before the loop, as a tenth of the original bin count (truncated), and every call of
  \<^verbatim>\<open>gauss_fit\<close>, the first attempt and each retry, is made with that same window.
\<close>

theorem smooth_window_fixed:
  assumes "smart_gauss_fit gauss_fit gauss_bins None = Inr (fit, attempt_no, calls)"
  shows "length calls = attempt_no + 1 \<and> (\<forall>c \<in> set calls. snd c = int_tenth gauss_bins)"
proof -
  note c = smart_gauss_fit_calls [OF assms]
  have "snd (calls ! i) = int_tenth gauss_bins" if "i < length calls" for i
  proof (cases "i = 0")
    case True
    with c(2) show ?thesis by simp
  next
    case False
    with that c(1) have "1 \<le> i" "i \<le> attempt_no" by simp_all
    from c(3) [OF this] show ?thesis by simp
  qed
  then have "\<forall>c \<in> set calls. snd c = int_tenth gauss_bins"
    by (metis in_set_conv_nth)
  with c(1) show ?thesis by simp
qed

theorem smooth_window_fixed_witness:
  "smart_gauss_fit (\<lambda>b s. if b < 28 then None else Some ()) 19 None
     = Inr ((), 17,
         [(19, 1), (20, 1), (17, 1), (21, 1), (16, 1), (22, 1), (15, 1), (23, 1), (14, 1),
          (24, 1), (13, 1), (25, 1), (12, 1), (26, 1), (11, 1), (27, 1), (10, 1), (28, 1)]) \<and>
   int_tenth 19 = 1 \<and>
   set (map snd [(19, 1), (20, 1), (17, 1), (21, 1), (16, 1), (22, 1), (15, 1), (23, 1), (14, 1),
          (24, 1), (13, 1), (25, 1), (12, 1), (26, 1), (11, 1), (27, 1), (10, 1), (28, 1 :: int) :: int \<times> int])
     = {int_tenth 19}"
  using smooth_window_fixed [OF smart_gauss_fit_19] smart_gauss_fit_19
  by (simp add: int_tenth_def)

text \<open>
  C5 as stated fails: from 19 bins the window is 1, and the retries with 20 and with 28
  bins, a tenth of which is 2, still run with the window 1.
\<close>

theorem smooth_window_recomputed_counterexample:
  "smart_gauss_fit (\<lambda>b s. if b < 28 then None else Some ()) 19 None
     = Inr ((), 17,
         [(19, 1), (20, 1), (17, 1), (21, 1), (16, 1), (22, 1), (15, 1), (23, 1), (14, 1),
          (24, 1), (13, 1), (25, 1), (12, 1), (26, 1), (11, 1), (27, 1), (10, 1), (28, 1)]) \<and>
   int_tenth 20 = 2 \<and> int_tenth 28 = 2"
  by (simp add: smart_gauss_fit_def retry_loop.simps length_bin_adjust nth_bin_adjust int_tenth_def)

section \<open>Properties of the intersection resolver\<close>

lemma pair_intersect_cases:
  assumes "pair_intersect xline ga gb = Inr b"
  shows "b \<in> set xline \<or>
         (\<exists>x1 \<in> set xline. \<exists>x2 \<in> set xline. crossings ga gb = Inr [] \<and> b = 0.5 * \<bar>x2 + x1\<bar>)"
proof -
  from assms obtain idx where idx: "crossings ga gb = Inr idx"
    by (auto simp add: pair_intersect_def split: sum.splits)
  consider "length idx = 1" | "length idx \<noteq> 1" "length idx \<noteq> 0" | "idx = []"
    by auto
  then show ?thesis
  proof cases
    case 1
    with assms idx have "nth_chk xline (idx ! 0) = Inr b"
      by (simp add: pair_intersect_def)
    then show ?thesis by (auto simp add: nth_chk_Inr)
  next
    case 2
    with assms idx obtain ys ymax where
      m: "map_err (nth_chk xline) (filter (\<lambda>item. ga ! item = ymax) idx) = Inr [b]"
      by (auto simp add: pair_intersect_def Let_def split: sum.splits list.splits)
    from map_err_Inr_set [OF m, of b] obtain i where "nth_chk xline i = Inr b" by auto
    then show ?thesis by (auto simp add: nth_chk_Inr)
  next
    case 3
    with assms idx obtain g1 g2 x1 x2 where
      x2: "nth_chk xline g2 = Inr x2" and x1: "nth_chk xline g1 = Inr x1"
      and b: "b = 0.5 * \<bar>x2 + x1\<bar>"
      by (auto simp add: pair_intersect_def split: sum.splits)
    from x1 x2 have "x1 \<in> set xline" "x2 \<in> set xline" by (simp_all add: nth_chk_Inr)
    with idx 3 b show ?thesis by blast
  qed
qed

lemma pair_intersect_bounds:
  assumes "pair_intersect xline ga gb = Inr b"
    and "\<forall>x \<in> set xline. lo \<le> x \<and> x \<le> hi"
  shows "lo \<le> b" and "- lo \<le> hi \<Longrightarrow> b \<le> hi"
proof -
  from pair_intersect_cases [OF assms(1)]
  consider "b \<in> set xline"
    | x1 x2 where "x1 \<in> set xline" "x2 \<in> set xline" "b = 0.5 * \<bar>x2 + x1\<bar>"
    by blast
  then have "lo \<le> b \<and> (- lo \<le> hi \<longrightarrow> b \<le> hi)"
  proof cases
    case 1
    with assms(2) show ?thesis by simp
  next
    case 2
    with assms(2) have "lo \<le> x1" "x1 \<le> hi" "lo \<le> x2" "x2 \<le> hi" by simp_all
    moreover from 2(3) have "b = \<bar>x2 + x1\<bar> / 2" by simp
    ultimately show ?thesis by (cases "x2 + x1 < 0") auto
  qed
  then show "lo \<le> b" and "- lo \<le> hi \<Longrightarrow> b \<le> hi" by simp_all
qed

lemma pair_intersect_magnitude:
  assumes "pair_intersect xline ga gb = Inr b"
    and "\<forall>x \<in> set xline. lo \<le> x \<and> x \<le> hi"
    and "- c \<le> lo" and "hi \<le> c"
  shows "b \<le> c"
proof -
  from pair_intersect_cases [OF assms(1)]
  consider "b \<in> set xline"
    | x1 x2 where "x1 \<in> set xline" "x2 \<in> set xline" "b = 0.5 * \<bar>x2 + x1\<bar>"
    by blast
  then show ?thesis
  proof cases
    case 1
    with assms(2,4) show ?thesis by fastforce
  next
    case 2
    with assms(2) have "lo \<le> x1" "x1 \<le> hi" "lo \<le> x2" "x2 \<le> hi" by simp_all
    moreover from 2(3) have "b = \<bar>x2 + x1\<bar> / 2" by simp
    ultimately show ?thesis using assms(3,4) by (cases "x2 + x1 < 0") auto
  qed
qed

lemma get_intersects_Inr:
  assumes "get_intersects gaussians distribution xline = Inr ios"
  shows "distribution \<noteq> [] \<and>
         (\<exists>mids. ios = Min (set distribution) # mids @ [Max (set distribution)] \<and>
            (\<forall>b \<in> set mids. \<exists>ga gb. pair_intersect xline ga gb = Inr b))"
proof -
  from assms obtain lo where lo: "py_min distribution = Inr lo"
    by (auto simp add: get_intersects_def split: sum.splits)
  then have ne: "distribution \<noteq> []" and lo_eq: "lo = Min (set distribution)"
    by (simp_all add: py_min_Inr)
  from assms lo obtain reordered mids hi where
    mids: "map_err (\<lambda>gauss_index. pair_intersect xline (reordered ! gauss_index)
                      (reordered ! (gauss_index + 1))) [0..<length reordered - 1] = Inr mids"
    and hi: "py_max distribution = Inr hi"
    and ios: "ios = [lo] @ mids @ [hi]"
    by (auto simp add: get_intersects_def Let_def split: sum.splits)
  from hi have hi_eq: "hi = Max (set distribution)" by (simp add: py_max_Inr)
  have "\<exists>ga gb. pair_intersect xline ga gb = Inr b" if "b \<in> set mids" for b
    using map_err_Inr_set [OF mids that] by blast
  with ne ios lo_eq hi_eq show ?thesis by auto
qed

text \<open>
  In general, the boundary of a pair with no crossing is half the absolute value of the
  sum of the two peak positions.
\<close>

lemma pair_intersect_no_crossing:
  assumes "crossings ga gb = Inr []"
    and "peak_index ga = Inr gauss_max1" and "peak_index gb = Inr gauss_max2"
    and "gauss_max1 < length xline" and "gauss_max2 < length xline"
  shows "pair_intersect xline ga gb = Inr (\<bar>xline ! gauss_max2 + xline ! gauss_max1\<bar> / 2)"
  using assms by (simp add: pair_intersect_def nth_chk_def)

text \<open>
  Two curves on a grid from \<open>-4\<close> to \<open>0\<close>, the first above the second everywhere:
  their peaks are at \<open>-4\<close> and \<open>-2\<close> and their difference never changes sign.
\<close>

lemma crossings_dominated: "crossings [6, 5, 4, 2, 1] [1, 2, 3, 1, 0] = Inr []"
  by (simp add: crossings_def np_sub_def np_argwhere_def np_diff_def)

lemma peak_index_dominated:
  "peak_index [6, 5, 4, 2, 1] = Inr 0" "peak_index [1, 2, 3, 1, 0] = Inr 2"
  by (simp_all add: peak_index_def py_max_def py_index_def)

lemma pair_intersect_dominated:
  "pair_intersect [- 4, - 3, - 2, - 1, 0] [6, 5, 4, 2, 1] [1, 2, 3, 1, 0] = Inr 3"
  by (simp add: pair_intersect_def crossings_dominated peak_index_dominated nth_chk_def)

lemma get_intersects_dominated:
  "get_intersects [[6, 5, 4, 2, 1], [1, 2, 3, 1, 0]] [- 4, 0] [- 4, - 3, - 2, - 1, 0]
     = Inr [- 4, 3, 0]"
  by (simp add: get_intersects_def reorder_gaussians_def peak_index_dominated
        pair_intersect_dominated nth_chk_def py_min_def py_max_def py_index_def)

text \<open>
  C2. For a pair of curves with no crossing the source appends
  \<^verbatim>\<open>0.5 * np.abs(xline[gauss_max2] + xline[gauss_max1])\<close>: half the absolute value
  of the sum of the peak positions. For the peaks at \<open>-4\<close> and \<open>-2\<close> that is \<open>3\<close>,
  and the midpoint is \<open>-3\<close>.
\<close>

theorem no_crossing_boundary_not_midpoint:
  "crossings [6, 5, 4, 2, 1] [1, 2, 3, 1, 0] = Inr [] \<and>
   peak_index [6, 5, 4, 2, 1] = Inr 0 \<and> peak_index [1, 2, 3, 1, 0] = Inr 2 \<and>
   [- 4, - 3, - 2, - 1, 0 :: real] ! 0 = - 4 \<and> [- 4, - 3, - 2, - 1, 0 :: real] ! 2 = - 2 \<and>
   pair_intersect [- 4, - 3, - 2, - 1, 0] [6, 5, 4, 2, 1] [1, 2, 3, 1, 0] = Inr 3 \<and>
   get_intersects [[6, 5, 4, 2, 1], [1, 2, 3, 1, 0]] [- 4, 0] [- 4, - 3, - 2, - 1, 0]
     = Inr [- 4, 3, 0] \<and>
   ((- 4) + (- 2)) / 2 = (- 3 :: real)"
  by (simp add: crossings_dominated peak_index_dominated pair_intersect_dominated
        get_intersects_dominated)

section \<open>Properties of the state limits\<close>

lemma sorted_hd_least: "sorted xs \<Longrightarrow> x \<in> set xs \<Longrightarrow> hd xs \<le> (x::real)"
  by (cases xs) auto

lemma sorted_last_greatest: "sorted xs \<Longrightarrow> x \<in> set xs \<Longrightarrow> (x::real) \<le> last xs"
  by (induction xs) (auto split: if_splits)

lemma sorted_hd_eq:
  assumes "sorted xs" "(m::real) \<in> set xs" "\<forall>x \<in> set xs. m \<le> x"
  shows "hd xs = m"
proof -
  from assms(2) have "xs \<noteq> []" by auto
  then have "hd xs \<in> set xs" by simp
  with assms(3) have "m \<le> hd xs" by blast
  with sorted_hd_least [OF assms(1,2)] show ?thesis by simp
qed

lemma sorted_last_eq:
  assumes "sorted xs" "(m::real) \<in> set xs" "\<forall>x \<in> set xs. x \<le> m"
  shows "last xs = m"
proof -
  from assms(2) have "xs \<noteq> []" by auto
  then have "last xs \<in> set xs" by simp
  with assms(3) have "last xs \<le> m" by blast
  with sorted_last_greatest [OF assms(1,2)] show ?thesis by simp
qed

lemma Min_le_Max_list: "xs \<noteq> [] \<Longrightarrow> Min (set xs) \<le> Max (set (xs::real list))"
proof -
  assume "xs \<noteq> []"
  then have "hd xs \<in> set xs" by simp
  then have "Min (set xs) \<le> hd xs" "hd xs \<le> Max (set xs)" by simp_all
  then show ?thesis by (rule order_trans)
qed

text \<open>
  The grid of \<^verbatim>\<open>gauss_fit\<close> lies between its end points.
\<close>

lemma np_linspace_bounds:
  assumes "start \<le> stop" and "x \<in> set (np_linspace start stop num)"
  shows "start \<le> x \<and> x \<le> stop"
proof -
  from assms(2) obtain i where i: "i < num" and x: "x = start + real i * ((stop - start) / real (num - 1))"
    by (auto simp add: np_linspace_def)
  show ?thesis
  proof (cases "num = 1")
    case True
    with i x assms(1) show ?thesis by simp
  next
    case False
    with i have pos: "0 < real (num - 1)" by simp
    from i have le: "real i \<le> real (num - 1)" by simp
    have frac: "0 \<le> real i / real (num - 1)" "real i / real (num - 1) \<le> 1"
      using pos le by simp_all
    have x': "x = start + (real i / real (num - 1)) * (stop - start)"
      using x by simp
    have "0 \<le> (real i / real (num - 1)) * (stop - start)"
      using frac(1) assms(1) by simp
    moreover have "(real i / real (num - 1)) * (stop - start) \<le> 1 * (stop - start)"
      using frac(2) assms(1) by (intro mult_right_mono) simp_all
    ultimately show ?thesis using x' by simp
  qed
qed

text \<open>
  Runs of the orchestrator with a fit that succeeds at once: the dominated pair above,
  without and with a sentinel; a single curve over samples above 20000 with a sentinel; a
  crossing pair, with and without a sentinel; and the dominated pair on a grid from
  \<open>-50000\<close> to \<open>0\<close> with a sentinel.
\<close>

lemma determine_state_limits_dominated:
  "determine_state_limits (\<lambda>d b s. Some ([[6, 5, 4, 2, 1], [1, 2, 3, 1, 0]], [- 4, - 3, - 2, - 1, 0]))
     [- 4, 0] 120 None = Inr [- 4, 0, 3]"
  by (simp add: determine_state_limits_def smart_gauss_fit_at_once get_intersects_dominated)

lemma get_intersects_single:
  "get_intersects [[0, 1, 0]] [25000, 30000] [25000, 27500, 30000] = Inr [25000, 30000]"
  by (simp add: get_intersects_def reorder_gaussians_def peak_index_def
        nth_chk_def py_min_def py_max_def py_index_def)

lemma determine_state_limits_large:
  "determine_state_limits (\<lambda>d b s. Some ([[0, 1, 0]], [25000, 27500, 30000]))
     [25000, 30000, 10000] 120 None = Inr [20000, 25000, 30000]"
  by (simp add: determine_state_limits_def smart_gauss_fit_at_once get_intersects_single)

lemma crossings_pair: "crossings [0, 2, 1, 0] [0, 1, 2, 0] = Inr [0, 1, 2]"
  by (simp add: crossings_def np_sub_def np_argwhere_def np_diff_def upt_conv_Cons)

lemma pair_intersect_pair: "pair_intersect [1, 2, 3, 4] [0, 2, 1, 0] [0, 1, 2, 0] = Inr 2"
  by (simp add: pair_intersect_def crossings_pair nth_chk_def py_max_def)

lemma peak_index_pair: "peak_index [0, 2, 1, 0] = Inr 1" "peak_index [0, 1, 2, 0] = Inr 2"
  by (simp_all add: peak_index_def py_max_def py_index_def)

lemma get_intersects_pair:
  "get_intersects [[0, 2, 1, 0], [0, 1, 2, 0]] [1, 4, 2] [1, 2, 3, 4] = Inr [1, 2, 4]"
  by (simp add: get_intersects_def reorder_gaussians_def peak_index_pair
        pair_intersect_pair nth_chk_def py_min_def py_max_def py_index_def)

lemma determine_state_limits_pair:
  "determine_state_limits (\<lambda>d b s. Some ([[0, 2, 1, 0], [0, 1, 2, 0]], [1, 2, 3, 4]))
     [1, 4, 10000, 2] 120 None = Inr [1, 2, 4, 20000]"
  by (simp add: determine_state_limits_def smart_gauss_fit_at_once get_intersects_pair)

lemma determine_state_limits_plain:
  "determine_state_limits (\<lambda>d b s. Some ([[0, 2, 1, 0], [0, 1, 2, 0]], [1, 2, 3, 4]))
     [1, 4, 2] 120 None = Inr [1, 2, 4]"
  by (simp add: determine_state_limits_def smart_gauss_fit_at_once get_intersects_pair)

lemma determine_state_limits_dominated_sentinel:
  "determine_state_limits (\<lambda>d b s. Some ([[6, 5, 4, 2, 1], [1, 2, 3, 1, 0]], [- 4, - 3, - 2, - 1, 0]))
     [- 4, 0, 10000] 120 None = Inr [- 4, 0, 3, 20000]"
  by (simp add: determine_state_limits_def smart_gauss_fit_at_once get_intersects_dominated)

lemma pair_intersect_far:
  "pair_intersect [- 50000, - 40000, - 30000, - 20000, 0] [6, 5, 4, 2, 1] [1, 2, 3, 1, 0] = Inr 40000"
  by (simp add: pair_intersect_def crossings_dominated peak_index_dominated nth_chk_def)

lemma get_intersects_far:
  "get_intersects [[6, 5, 4, 2, 1], [1, 2, 3, 1, 0]] [- 50000, 0]
     [- 50000, - 40000, - 30000, - 20000, 0] = Inr [- 50000, 40000, 0]"
  by (simp add: get_intersects_def reorder_gaussians_def peak_index_dominated
        pair_intersect_far nth_chk_def py_min_def py_max_def py_index_def)

lemma determine_state_limits_far:
  "determine_state_limits
     (\<lambda>d b s. Some ([[6, 5, 4, 2, 1], [1, 2, 3, 1, 0]], [- 50000, - 40000, - 30000, - 20000, 0]))
     [- 50000, 0, 10000] 120 None = Inr [- 50000, 0, 20000, 40000]"
  by (simp add: determine_state_limits_def smart_gauss_fit_at_once get_intersects_far)

text \<open>
  C1, as amended. Whenever \<^verbatim>\<open>determine_state_limits\<close> returns, and the grid the
  fit returned lies between the minimum and the maximum of the sentinel-filtered
  distribution (as \<^verbatim>\<open>linspace(min, max, 10000)\<close> does), the returned list is sorted
  ascending; its first element is that minimum if no sentinel was present or the minimum
  is at most 20000; its last element is the maximum if no sentinel was present and the
  negated minimum is at most the maximum; and its last element is 20000 if a sentinel was
  present, the minimum is at least \<open>-20000\<close> and the maximum at most 20000.
\<close>

theorem determine_state_limits_bounds:
  assumes ret: "determine_state_limits gauss_fit distr gauss_bins gauss_smooth = Inr bs"
    and grid: "\<And>b s gaussians xline.
                 gauss_fit (filter (\<lambda>item. item \<noteq> 10000) distr) b s = Some (gaussians, xline) \<Longrightarrow>
                 \<forall>x \<in> set xline. Min (set (filter (\<lambda>item. item \<noteq> 10000) distr)) \<le> x
                                \<and> x \<le> Max (set (filter (\<lambda>item. item \<noteq> 10000) distr))"
  shows "sorted bs \<and>
    (10000 \<notin> set distr \<or> Min (set (filter (\<lambda>item. item \<noteq> 10000) distr)) \<le> 20000 \<longrightarrow>
       hd bs = Min (set (filter (\<lambda>item. item \<noteq> 10000) distr))) \<and>
    (10000 \<notin> set distr \<and>
     - Min (set (filter (\<lambda>item. item \<noteq> 10000) distr))
         \<le> Max (set (filter (\<lambda>item. item \<noteq> 10000) distr)) \<longrightarrow>
       last bs = Max (set (filter (\<lambda>item. item \<noteq> 10000) distr))) \<and>
    (10000 \<in> set distr \<and> - 20000 \<le> Min (set (filter (\<lambda>item. item \<noteq> 10000) distr)) \<and>
     Max (set (filter (\<lambda>item. item \<noteq> 10000) distr)) \<le> 20000 \<longrightarrow>
       last bs = 20000)"
proof -
  let ?d = "filter (\<lambda>item. item \<noteq> 10000) distr"
  let ?lo = "Min (set ?d)" and ?hi = "Max (set ?d)"
  let ?sent = "count_list distr 10000 \<ge> 1"
  have sent: "?sent \<longleftrightarrow> 10000 \<in> set distr"
    by (metis count_list_0_iff not_less_eq_eq le0 le_zero_eq One_nat_def)
  from ret obtain gaussians xline attempt_no calls ios where
    fit: "smart_gauss_fit (gauss_fit ?d) gauss_bins gauss_smooth
            = Inr ((gaussians, xline), attempt_no, calls)"
    and gi: "get_intersects gaussians ?d xline = Inr ios"
    and bs: "bs = sort (if ?sent then ios @ [20000] else ios)"
    by (auto simp add: determine_state_limits_def Let_def split: sum.splits)
  from fit have "retry_loop (gauss_fit ?d) gauss_bins
      (case gauss_smooth of None \<Rightarrow> int_tenth gauss_bins | Some s \<Rightarrow> s) gauss_bins 0 []
        = Inr ((gaussians, xline), attempt_no, calls)"
    by (simp add: smart_gauss_fit_def)
  from retry_loop_success [OF this]
  obtain b s where "gauss_fit ?d b s = Some (gaussians, xline)" by blast
  from grid [OF this] have xl: "\<forall>x \<in> set xline. ?lo \<le> x \<and> x \<le> ?hi" .
  from get_intersects_Inr [OF gi] obtain mids where
    ne: "?d \<noteq> []" and ios: "ios = ?lo # mids @ [?hi]"
    and mids: "\<forall>b \<in> set mids. \<exists>ga gb. pair_intersect xline ga gb = Inr b"
    by blast
  have lohi: "?lo \<le> ?hi" using ne by (rule Min_le_Max_list)
  have mids_lo: "\<forall>b \<in> set mids. ?lo \<le> b"
    using mids pair_intersect_bounds(1) [OF _ xl] by blast
  have mids_hi: "\<forall>b \<in> set mids. b \<le> ?hi" if "- ?lo \<le> ?hi"
    using mids pair_intersect_bounds(2) [OF _ xl that] by blast
  have mids_c: "\<forall>b \<in> set mids. b \<le> 20000" if "- 20000 \<le> ?lo" "?hi \<le> 20000"
    using mids pair_intersect_magnitude [OF _ xl that] by blast
  have srt: "sorted bs" using bs by simp
  have set_bs: "set bs = (if 10000 \<in> set distr then insert 20000 (set ios) else set ios)"
    using bs sent by simp
  have set_ios: "set ios = insert ?lo (insert ?hi (set mids))"
    using ios by auto
  have first: "hd bs = ?lo" if "10000 \<notin> set distr \<or> ?lo \<le> 20000"
  proof (rule sorted_hd_eq [OF srt])
    show "?lo \<in> set bs" using set_bs set_ios by simp
    show "\<forall>x \<in> set bs. ?lo \<le> x"
      using set_bs set_ios mids_lo lohi that by (auto split: if_splits)
  qed
  have last1: "last bs = ?hi" if "10000 \<notin> set distr" "- ?lo \<le> ?hi"
  proof (rule sorted_last_eq [OF srt])
    show "?hi \<in> set bs" using set_bs set_ios by simp
    show "\<forall>x \<in> set bs. x \<le> ?hi"
      using set_bs set_ios mids_hi [OF that(2)] lohi that(1) by auto
  qed
  have last2: "last bs = 20000" if "10000 \<in> set distr" "- 20000 \<le> ?lo" "?hi \<le> 20000"
  proof (rule sorted_last_eq [OF srt])
    show "20000 \<in> set bs" using set_bs that(1) by simp
    show "\<forall>x \<in> set bs. x \<le> 20000"
      using set_bs set_ios mids_c [OF that(2,3)] lohi that by fastforce
  qed
  from srt first last1 last2 show ?thesis by blast
qed

theorem determine_state_limits_bounds_witness:
  "determine_state_limits (\<lambda>d b s. Some ([[0, 2, 1, 0], [0, 1, 2, 0]], [1, 2, 3, 4]))
     [1, 4, 10000, 2] 120 None = Inr [1, 2, 4, 20000] \<and>
   sorted [1, 2, 4, 20000 :: real] \<and> hd [1, 2, 4, 20000 :: real] = 1 \<and>
   last [1, 2, 4, 20000 :: real] = 20000 \<and>
   determine_state_limits (\<lambda>d b s. Some ([[0, 2, 1, 0], [0, 1, 2, 0]], [1, 2, 3, 4]))
     [1, 4, 2] 120 None = Inr [1, 2, 4] \<and>
   sorted [1, 2, 4 :: real] \<and> hd [1, 2, 4 :: real] = 1 \<and> last [1, 2, 4 :: real] = 4 \<and>
   determine_state_limits (\<lambda>d b s. Some ([[6, 5, 4, 2, 1], [1, 2, 3, 1, 0]], [- 4, - 3, - 2, - 1, 0]))
     [- 4, 0, 10000] 120 None = Inr [- 4, 0, 3, 20000] \<and>
   sorted [- 4, 0, 3, 20000 :: real] \<and> hd [- 4, 0, 3, 20000 :: real] = - 4 \<and>
   last [- 4, 0, 3, 20000 :: real] = 20000"
proof -
  have grid1: "\<forall>x \<in> set xline. Min (set (filter (\<lambda>item. item \<noteq> 10000) [1, 4, 10000, 2])) \<le> x
                 \<and> x \<le> Max (set (filter (\<lambda>item. item \<noteq> 10000) [1, 4, 10000, 2]))"
    if "(\<lambda>d b s. Some ([[0, 2, 1, 0], [0, 1, 2, 0]], [1, 2, 3, 4 :: real]))
          (filter (\<lambda>item. item \<noteq> 10000) [1, 4, 10000, 2 :: real]) (b :: int) (s :: int)
        = Some (gaussians :: real list list, xline)"
    for b s gaussians xline
    using that by auto
  have grid2: "\<forall>x \<in> set xline. Min (set (filter (\<lambda>item. item \<noteq> 10000) [1, 4, 2])) \<le> x
                 \<and> x \<le> Max (set (filter (\<lambda>item. item \<noteq> 10000) [1, 4, 2]))"
    if "(\<lambda>d b s. Some ([[0, 2, 1, 0], [0, 1, 2, 0]], [1, 2, 3, 4 :: real]))
          (filter (\<lambda>item. item \<noteq> 10000) [1, 4, 2 :: real]) (b :: int) (s :: int)
        = Some (gaussians :: real list list, xline)"
    for b s gaussians xline
    using that by auto
  have grid3: "\<forall>x \<in> set xline. Min (set (filter (\<lambda>item. item \<noteq> 10000) [- 4, 0, 10000])) \<le> x
                 \<and> x \<le> Max (set (filter (\<lambda>item. item \<noteq> 10000) [- 4, 0, 10000]))"
    if "(\<lambda>d b s. Some ([[6, 5, 4, 2, 1], [1, 2, 3, 1, 0]], [- 4, - 3, - 2, - 1, 0 :: real]))
          (filter (\<lambda>item. item \<noteq> 10000) [- 4, 0, 10000 :: real]) (b :: int) (s :: int)
        = Some (gaussians :: real list list, xline)"
    for b s gaussians xline
    using that by auto
  from determine_state_limits_bounds [OF determine_state_limits_pair grid1]
  have w1: "sorted [1, 2, 4, 20000 :: real] \<and> hd [1, 2, 4, 20000 :: real] = 1 \<and>
            last [1, 2, 4, 20000 :: real] = 20000" by simp
  from determine_state_limits_bounds [OF determine_state_limits_plain grid2]
  have w2: "sorted [1, 2, 4 :: real] \<and> hd [1, 2, 4 :: real] = 1 \<and> last [1, 2, 4 :: real] = 4"
    by simp
  from determine_state_limits_bounds [OF determine_state_limits_dominated_sentinel grid3]
  have w3: "sorted [- 4, 0, 3, 20000 :: real] \<and> hd [- 4, 0, 3, 20000 :: real] = - 4 \<and>
            last [- 4, 0, 3, 20000 :: real] = 20000" by simp
  from w1 w2 w3 determine_state_limits_pair determine_state_limits_plain
    determine_state_limits_dominated_sentinel
  show ?thesis by simp
qed

text \<open>
  C1 as stated fails. With samples above 20000 and a sentinel, the sorted list starts with
  20000 and ends with the maximum. With the dominated pair and no sentinel, the boundary 3
  lies above the maximum 0 and is the last element. With the dominated pair on the grid
  from \<open>-50000\<close> and a sentinel, the boundary 40000 lies above 20000 and is the last
  element.
\<close>

theorem determine_state_limits_counterexample:
  "determine_state_limits (\<lambda>d b s. Some ([[0, 1, 0]], [25000, 27500, 30000]))
     [25000, 30000, 10000] 120 None = Inr [20000, 25000, 30000] \<and>
   hd [20000, 25000, 30000 :: real] \<noteq> Min (set (filter (\<lambda>item. item \<noteq> 10000) [25000, 30000, 10000])) \<and>
   last [20000, 25000, 30000 :: real] \<noteq> 20000 \<and>
   determine_state_limits (\<lambda>d b s. Some ([[6, 5, 4, 2, 1], [1, 2, 3, 1, 0]], [- 4, - 3, - 2, - 1, 0]))
     [- 4, 0] 120 None = Inr [- 4, 0, 3] \<and>
   last [- 4, 0, 3 :: real] \<noteq> Max (set (filter (\<lambda>item. item \<noteq> 10000) [- 4, 0])) \<and>
   determine_state_limits
     (\<lambda>d b s. Some ([[6, 5, 4, 2, 1], [1, 2, 3, 1, 0]], [- 50000, - 40000, - 30000, - 20000, 0]))
     [- 50000, 0, 10000] 120 None = Inr [- 50000, 0, 20000, 40000] \<and>
   last [- 50000, 0, 20000, 40000 :: real] \<noteq> 20000"
  by (simp add: determine_state_limits_large determine_state_limits_dominated
        determine_state_limits_far)

end
